theory Spec2Isabelle
  imports Complex_Main "HOL-Library.Char_ord" "HOL-Library.List_Lexorder" "HOL-Library.Sublist"
begin

section \<open>Python strings\<close>

text \<open>
  The transfer script \<^verbatim>\<open>VW_FTP.py\<close> works on Python strings. A string is a list of
  characters; the operations below are the ones the script calls.
\<close>

definition newline :: char where
  "newline = CHR 0x0A"

definition dquote :: char where
  "dquote = CHR 0x22"

text \<open>\<^verbatim>\<open>s.startswith(p)\<close>\<close>

fun startswith :: "string \<Rightarrow> string \<Rightarrow> bool" where
  "startswith s [] = True"
| "startswith [] (p # ps) = False"
| "startswith (c # cs) (p # ps) = (c = p \<and> startswith cs ps)"

text \<open>\<^verbatim>\<open>s.endswith(p)\<close>\<close>

definition endswith :: "string \<Rightarrow> string \<Rightarrow> bool" where
  "endswith s p = startswith (rev s) (rev p)"

text \<open>\<^verbatim>\<open>needle in hay\<close>: the needle occurs at some position of the haystack.\<close>

fun py_in :: "string \<Rightarrow> string \<Rightarrow> bool" where
  "py_in needle [] = (needle = [])"
| "py_in needle (c # cs) = (startswith (c # cs) needle \<or> py_in needle cs)"

text \<open>
  \<^verbatim>\<open>s.strip(chars)\<close>: the argument is a set of characters, and every leading and
  every trailing character of \<open>s\<close> that belongs to it is removed.
\<close>

definition py_strip :: "string \<Rightarrow> string \<Rightarrow> string" where
  "py_strip chars s =
     rev (dropWhile (\<lambda>c. c \<in> set chars) (rev (dropWhile (\<lambda>c. c \<in> set chars) s)))"

text \<open>\<^verbatim>\<open>s.split('.')[0]\<close>: the part of \<open>s\<close> before its first dot.\<close>

definition split_dot_first :: "string \<Rightarrow> string" where
  "split_dot_first s = takeWhile (\<lambda>c. c \<noteq> CHR ''.'') s"

text \<open>
  Iterating over a text file yields its lines, each with its terminating newline; a
  last line without terminator is yielded as it is.
\<close>

fun readlines_from :: "string \<Rightarrow> string \<Rightarrow> string list" where
  "readlines_from cur [] = (if cur = [] then [] else [cur])"
| "readlines_from cur (c # cs) =
     (if c = newline then (cur @ [c]) # readlines_from [] cs
      else readlines_from (cur @ [c]) cs)"

definition file_lines :: "string \<Rightarrow> string list" where
  "file_lines content = readlines_from [] content"

text \<open>The decimal digits of \<^verbatim>\<open>str(n)\<close> for a natural number.\<close>

definition digit_char :: "nat \<Rightarrow> char" where
  "digit_char d = char_of (48 + d)"

fun str_nat :: "nat \<Rightarrow> string" where
  "str_nat n = (if n < 10 then [digit_char n] else str_nat (n div 10) @ [digit_char (n mod 10)])"

declare str_nat.simps [simp del]

section \<open>Errors\<close>

text \<open>
  The exceptions the script raises itself (\<^verbatim>\<open>FTPConnectionError\<close>, \<^verbatim>\<open>KeyError\<close>,
  \<^verbatim>\<open>DuplicateFileError\<close>) and the ones raised by the calls it makes. Each carries
  its message.
\<close>

datatype error =
    FTPConnectionError string
  | KeyError string
  | DuplicateFileError string
  | FileNotFoundError string
  | TypeError string
  | AttributeError string
  | OverflowError string
  | NameError string
  | OtherError string

section \<open>Dedup ledger\<close>

text \<open>
  The ledger is the text file \<^verbatim>\<open>log_file.txt\<close>. Its state is \<open>None\<close> when the file
  does not exist and \<open>Some content\<close> otherwise.
\<close>

type_synonym ledger = "string option"

text \<open>
  \<^verbatim>\<open>log_file\<close> opens the ledger in append mode (which creates a missing file) and
  writes \<^verbatim>\<open>filename.strip(".txt") + ".zip"\<close> and a newline.
\<close>

definition stored_name :: "string \<Rightarrow> string" where
  "stored_name filename = py_strip ''.txt'' filename @ ''.zip''"

definition log_file :: "string \<Rightarrow> ledger \<Rightarrow> ledger" where
  "log_file filename lg =
     Some ((case lg of None \<Rightarrow> [] | Some content \<Rightarrow> content) @ stored_name filename @ [newline])"

text \<open>
  \<^verbatim>\<open>check_duplicate\<close> opens the ledger with mode \<^verbatim>\<open>r+\<close>, which raises when the
  file is missing, and runs over its lines with the flag \<^verbatim>\<open>repeat\<close>.
\<close>

fun check_loop :: "string \<Rightarrow> bool \<Rightarrow> string list \<Rightarrow> bool" where
  "check_loop filename repeat [] = repeat"
| "check_loop filename repeat (line # rest) =
     check_loop filename
       (if py_in filename (py_strip [newline] line) then True else repeat) rest"

definition check_duplicate :: "string \<Rightarrow> ledger \<Rightarrow> error + bool" where
  "check_duplicate filename lg =
     (case lg of
        None \<Rightarrow> Inl (FileNotFoundError ''log_file.txt'')
      | Some content \<Rightarrow> Inr (check_loop filename False (file_lines content)))"

text \<open>
  The lines of a text as the ledger's reader understands them: the pieces between
  newline characters, without the terminators.
\<close>

fun text_lines :: "string \<Rightarrow> string list" where
  "text_lines [] = []"
| "text_lines (c # cs) =
     (if c = newline then [] # text_lines cs
      else (case text_lines cs of [] \<Rightarrow> [[c]] | l # ls \<Rightarrow> (c # l) # ls))"

section \<open>Remote source selector: choosing the candidate\<close>

definition PREFIX :: string where
  "PREFIX = ''ops_mdm_veh_inven_en_fr_vw_can''"

text \<open>
  An entry of the remote directory has a name and a modification time;
  \<^verbatim>\<open>sftp.listdir()\<close> returns the names only.
\<close>

record remote_entry =
  entry_name :: string
  entry_mtime :: nat

definition listdir :: "remote_entry list \<Rightarrow> string list" where
  "listdir entries = map entry_name entries"

definition not_found_message :: string where
  "not_found_message =
     ''Unable to find any files in VW SFTP directory '' @ [dquote] @ ''/vw_out/'' @ [dquote]
       @ '' that begin with PREFIX '' @ [dquote] @ PREFIX @ [dquote]"

text \<open>
  Lines 188 to 199 of \<^verbatim>\<open>download_sftp\<close>: keep the names that start with the prefix,
  raise \<^verbatim>\<open>KeyError\<close> when there is none, otherwise take the first element of
  \<^verbatim>\<open>sorted(files, reverse=True)\<close>. Strings compare character by character.
\<close>

definition matching_files :: "string list \<Rightarrow> string list" where
  "matching_files names = filter (\<lambda>f. startswith f PREFIX) names"

definition select_newest :: "string list \<Rightarrow> error + string" where
  "select_newest names =
     (let files = matching_files names in
      if length files = 0 then Inl (KeyError not_found_message)
      else (case rev (sort files) of
              [] \<Rightarrow> Inl (OtherError ''list index out of range'')
            | filename # _ \<Rightarrow> Inr filename))"

section \<open>Record transformer\<close>

text \<open>
  A cell of the table read by \<^verbatim>\<open>pandas.read_csv\<close> is a float or a string; an empty
  field is the float NaN. A finite float is a rational number.
\<close>

datatype pyfloat = NaN | PosInf | NegInf | Fin rat

datatype cell = Num pyfloat | Str string

type_synonym row = "(string \<times> cell) list"

definition COUNT_COLUMN :: string where
  "COUNT_COLUMN = ''NON_TRASH_PHOTO_COUNT''"

definition URL_COLUMN :: string where
  "URL_COLUMN = ''IMAGE_URL_PATTERN''"

text \<open>\<^verbatim>\<open>row[column]\<close> raises \<^verbatim>\<open>KeyError\<close> for a column the table does not have.\<close>

definition row_get :: "row \<Rightarrow> string \<Rightarrow> error + cell" where
  "row_get r column = (case map_of r column of None \<Rightarrow> Inl (KeyError column) | Some c \<Rightarrow> Inr c)"

text \<open>\<^verbatim>\<open>df.loc[index, column] = value\<close> overwrites the cell, or adds the column.\<close>

fun row_set :: "string \<Rightarrow> cell \<Rightarrow> row \<Rightarrow> row" where
  "row_set column v [] = [(column, v)]"
| "row_set column v ((k, c) # r) =
     (if k = column then (k, v) # r else (k, c) # row_set column v r)"

text \<open>\<^verbatim>\<open>math.isnan(x)\<close> accepts numbers only.\<close>

fun math_isnan :: "cell \<Rightarrow> error + bool" where
  "math_isnan (Num NaN) = Inr True"
| "math_isnan (Num _) = Inr False"
| "math_isnan (Str _) = Inl (TypeError ''must be real number, not str'')"

text \<open>
  \<^verbatim>\<open>int(x)\<close> truncates a finite float towards zero and raises for an infinity or
  NaN. (The string case is never reached here: \<^verbatim>\<open>math.isnan\<close> has raised before.)
\<close>

definition py_trunc :: "rat \<Rightarrow> int" where
  "py_trunc q = (if 0 \<le> q then \<lfloor>q\<rfloor> else \<lceil>q\<rceil>)"

fun py_int :: "cell \<Rightarrow> error + int" where
  "py_int (Num (Fin q)) = Inr (py_trunc q)"
| "py_int (Num NaN) = Inl (OtherError ''cannot convert float NaN to integer'')"
| "py_int (Num _) = Inl (OverflowError ''cannot convert float infinity to integer'')"
| "py_int (Str _) = Inl (OtherError ''invalid literal for int()'')"

text \<open>\<^verbatim>\<open>range(n)\<close>: empty when \<open>n \<le> 0\<close>.\<close>

definition py_range :: "int \<Rightarrow> nat list" where
  "py_range n = [0 ..< nat n]"

text \<open>
  The inner loop of \<^verbatim>\<open>change_pictures\<close> (lines 281 to 288): for each \<open>i\<close> it reads the
  template cell, strips it with the character set \<^verbatim>\<open>'seq#.jpg'\<close>, appends the number
  \<open>i + 1\<close> and \<^verbatim>\<open>.jpg\<close>, and adds the link, followed by the delimiter, to
  \<^verbatim>\<open>pic_path_list\<close>.
\<close>

fun build_links :: "row \<Rightarrow> nat list \<Rightarrow> string list \<Rightarrow> error + string list" where
  "build_links r [] pic_path_list = Inr pic_path_list"
| "build_links r (i # rest) pic_path_list =
     (case row_get r URL_COLUMN of
        Inl e \<Rightarrow> Inl e
      | Inr (Num _) \<Rightarrow> Inl (AttributeError ''float object has no attribute strip'')
      | Inr (Str pic_path) \<Rightarrow>
          build_links r rest
            (pic_path_list @ [py_strip ''seq#.jpg'' pic_path @ str_nat (i + 1) @ ''.jpg'' @ ''|'']))"

text \<open>
  Lines 290 to 295: join the list, drop the last character (\<^verbatim>\<open>[:-1]\<close>), overwrite the
  cell.
\<close>

definition write_links :: "row \<Rightarrow> string list \<Rightarrow> row" where
  "write_links r pic_path_list = row_set URL_COLUMN (Str (butlast (concat pic_path_list))) r"

text \<open>The body of the loop over the rows (lines 275 to 295).\<close>

definition change_row :: "row \<Rightarrow> error + row" where
  "change_row r =
     (case row_get r COUNT_COLUMN of
        Inl e \<Rightarrow> Inl e
      | Inr pic_count \<Rightarrow>
          (case math_isnan pic_count of
             Inl e \<Rightarrow> Inl e
           | Inr isnan \<Rightarrow>
               if isnan = False then
                 (case py_int pic_count of
                    Inl e \<Rightarrow> Inl e
                  | Inr n \<Rightarrow>
                      (case build_links r (py_range n) [] of
                         Inl e \<Rightarrow> Inl e
                       | Inr pic_path_list \<Rightarrow> Inr (write_links r pic_path_list)))
               else Inr (write_links r [])))"

fun change_rows :: "row list \<Rightarrow> error + row list" where
  "change_rows [] = Inr []"
| "change_rows (r # rs) =
     (case change_row r of
        Inl e \<Rightarrow> Inl e
      | Inr r' \<Rightarrow> (case change_rows rs of Inl e \<Rightarrow> Inl e | Inr rs' \<Rightarrow> Inr (r' # rs')))"

text \<open>
  The URL field the specification describes for a count \<open>n\<close> and a template
  \<open>stem @ ''seq#.jpg''\<close>: the links \<open>stem @ i @ ''.jpg''\<close> for \<open>i\<close> from 1 to \<open>n\<close>,
  joined with the delimiter.
\<close>

fun join_with :: "string \<Rightarrow> string list \<Rightarrow> string" where
  "join_with sep [] = []"
| "join_with sep [x] = x"
| "join_with sep (x # y # ys) = x @ sep @ join_with sep (y # ys)"

definition numbered_urls :: "string \<Rightarrow> nat \<Rightarrow> string" where
  "numbered_urls stem n = join_with ''|'' (map (\<lambda>i. stem @ str_nat i @ ''.jpg'') [1 ..< Suc n])"

section \<open>Working area and uploader\<close>

text \<open>
  The working area \<^verbatim>\<open>./temp\<close> is a directory tree. A regular file holds a table or
  other bytes; a directory holds named entries in the order \<^verbatim>\<open>os.listdir\<close> and
  \<^verbatim>\<open>os.walk\<close> report them.
\<close>

datatype payload = Table "row list" | Bytes string

datatype fsnode = File payload | Dir "(string \<times> fsnode) list"

type_synonym entries = "(string \<times> fsnode) list"

fun is_dir :: "fsnode \<Rightarrow> bool" where
  "is_dir (Dir _) = True"
| "is_dir (File _) = False"

text \<open>\<^verbatim>\<open>os.path.join(a, b)\<close> on a POSIX system.\<close>

definition path_join :: "string \<Rightarrow> string \<Rightarrow> string" where
  "path_join a b =
     (if startswith b ''/'' then b
      else if a = [] \<or> endswith a ''/'' then a @ b
      else a @ ''/'' @ b)"

text \<open>
  \<^verbatim>\<open>os.walk(dirpath)\<close>, from the top down: the triple of the directory itself (its path, the names
  of its subdirectories, the names of its other entries), then the walk of each
  subdirectory.
\<close>

fun walk :: "string \<Rightarrow> entries \<Rightarrow> (string \<times> string list \<times> string list) list" where
  "walk dirpath es =
     (dirpath, map fst (filter (\<lambda>e. is_dir (snd e)) es), map fst (filter (\<lambda>e. \<not> is_dir (snd e)) es))
     # concat (map (\<lambda>e. case snd e of Dir sub \<Rightarrow> walk (path_join dirpath (fst e)) sub | File _ \<Rightarrow> []) es)"

declare walk.simps [simp del]

definition MARKER :: string where
  "MARKER = ''__MACOSX''"

text \<open>
  The two loops of \<^verbatim>\<open>ftp_upload\<close> (lines 248 to 255): the names given to \<^verbatim>\<open>STOR\<close>, in
  order.
\<close>

definition upload_names :: "string \<Rightarrow> entries \<Rightarrow> string list" where
  "upload_names path es =
     concat (map (\<lambda>(new_path, subdirs, files).
                    filter (\<lambda>name. \<not> endswith new_path MARKER) files)
                 (walk path es))"

text \<open>
  The regular files of a tree, each with the names of the directories that lead to it
  from the root of the tree.
\<close>

fun files_below :: "string list \<Rightarrow> entries \<Rightarrow> (string list \<times> string) list" where
  "files_below segs es =
     map (\<lambda>e. (segs, fst e)) (filter (\<lambda>e. \<not> is_dir (snd e)) es)
     @ concat (map (\<lambda>e. case snd e of Dir sub \<Rightarrow> files_below (segs @ [fst e]) sub | File _ \<Rightarrow> []) es)"

declare files_below.simps [simp del]

section \<open>The pipeline\<close>

subsection \<open>The local machine and the outside world\<close>

text \<open>
  What is stored in a file of the current directory: a zip archive with its members,
  or anything else.
\<close>

datatype filedata = ZipArchive entries | OtherData string

text \<open>
  The calls of a run, in the order they are made. \<open>Download\<close> is recorded when
  \<^verbatim>\<open>sftp.get\<close> has returned, every other event when the call is made.
\<close>

datatype event =
    Download string
  | LedgerAppend string
  | Expand string
  | Rename string string
  | Transform string
  | UploadSession
  | Stor string
  | RemoveTempFiles
  | Unlink string
  | Rmdir

text \<open>
  The state a run changes: the ledger, the files of the current directory, the working
  area (\<open>None\<close> when \<^verbatim>\<open>./temp\<close> does not exist), the names stored on the destination,
  the global list \<^verbatim>\<open>messages\<close>, and the message lists handed to the notifier.
\<close>

record world =
  ledger_file :: ledger
  cwd_files :: "(string \<times> filedata) list"
  temp :: "entries option"
  uploaded :: "string list"
  messages :: "string list"
  notified :: "string list list"
  trace :: "event list"

text \<open>The outcome of opening the SFTP session (\<^verbatim>\<open>pysftp.Connection\<close>).\<close>

datatype session =
    Connected
  | AuthenticationException string
  | ConnectionException string
  | SessionError error

text \<open>
  What a run does not control: the current directory's path, the source endpoint (the
  session, the listing of \<^verbatim>\<open>/vw_out/\<close> when that directory exists, the result of
  fetching a file), the archive library (the working area after \<^verbatim>\<open>extractall\<close> and the
  error it raised, if any), the destination endpoint (login, outcome of each
  \<^verbatim>\<open>STOR\<close>), and whether deleting an entry of the working area fails.
\<close>

record env =
  getcwd :: string
  sftp_session :: session
  vw_out :: "remote_entry list option"
  sftp_get :: "string \<Rightarrow> error + filedata"
  extractall :: "filedata \<Rightarrow> entries option \<Rightarrow> error option \<times> entries option"
  ftp_login :: "error option"
  ftp_stor :: "string \<Rightarrow> error option"
  delete_error :: "string \<Rightarrow> error option"

text \<open>The global \<^verbatim>\<open>path = os.path.join(os.getcwd(), 'temp')\<close>.\<close>

definition temp_path :: "env \<Rightarrow> string" where
  "temp_path ev = path_join (getcwd ev) ''temp''"

text \<open>A step takes the state and returns its result, or the exception, and the new state.\<close>

type_synonym 'a step = "world \<Rightarrow> (error + 'a) \<times> world"

definition and_then :: "'a step \<Rightarrow> ('a \<Rightarrow> 'b step) \<Rightarrow> 'b step" where
  "and_then m f w = (case m w of (Inl e, w') \<Rightarrow> (Inl e, w') | (Inr x, w') \<Rightarrow> f x w')"

definition record_event :: "event \<Rightarrow> world \<Rightarrow> world" where
  "record_event e w = w\<lparr>trace := trace w @ [e]\<rparr>"

subsection \<open>\<^verbatim>\<open>download_sftp\<close>\<close>

definition download_sftp :: "env \<Rightarrow> string step" where
  "download_sftp ev w =
     (case sftp_session ev of
        AuthenticationException m \<Rightarrow>
          (Inl (FTPConnectionError (''Unable to authenticate connection to sftp: '' @ m)), w)
      | ConnectionException m \<Rightarrow>
          (Inl (FTPConnectionError (''Unable to establish connection to host : '' @ m)), w)
      | SessionError e \<Rightarrow> (Inl e, w)
      | Connected \<Rightarrow>
          (case vw_out ev of
             None \<Rightarrow> (Inl (FileNotFoundError ''/vw_out/''), w)
           | Some remote \<Rightarrow>
               (case select_newest (listdir remote) of
                  Inl e \<Rightarrow> (Inl e, w)
                | Inr filename \<Rightarrow>
                    (case check_duplicate filename (ledger_file w) of
                       Inl e \<Rightarrow> (Inl e, w)
                     | Inr repeat_status \<Rightarrow>
                         if repeat_status = True
                         then (Inl (DuplicateFileError ''File has already been logged.''), w)
                         else if filename \<noteq> [] then
                           (case sftp_get ev filename of
                              Inl e \<Rightarrow> (Inl e, w)
                            | Inr data \<Rightarrow>
                                (let w1 = record_event (Download filename)
                                            (w\<lparr>cwd_files := (filename, data)
                                                  # filter (\<lambda>f. fst f \<noteq> filename) (cwd_files w)\<rparr>);
                                     w2 = record_event (LedgerAppend (stored_name filename))
                                            (w1\<lparr>ledger_file := log_file filename (ledger_file w1)\<rparr>)
                                 in (Inr filename, w2)))
                         else (Inl (KeyError not_found_message), w)))))"

subsection \<open>\<^verbatim>\<open>unzip_file\<close> and \<^verbatim>\<open>convert_file\<close>\<close>

definition unzip_file :: "env \<Rightarrow> string \<Rightarrow> unit step" where
  "unzip_file ev filename w =
     (if filename \<noteq> [] then
        (let w1 = record_event (Expand filename) w in
         case map_of (cwd_files w1) filename of
           None \<Rightarrow> (Inl (FileNotFoundError filename), w1)
         | Some data \<Rightarrow>
             (case extractall ev data (temp w1) of
                (Some e, area) \<Rightarrow> (Inl e, w1\<lparr>temp := area\<rparr>)
              | (None, area) \<Rightarrow>
                  (Inr (), w1\<lparr>temp := area,
                              cwd_files := filter (\<lambda>f. fst f \<noteq> filename) (cwd_files w1)\<rparr>)))
      else (Inr (), w))"

text \<open>
  \<^verbatim>\<open>os.rename(src, dst)\<close> inside the working area: the source must exist; a
  destination of the same kind is replaced (a directory only when it is empty).
\<close>

definition rename_entry :: "string \<Rightarrow> string \<Rightarrow> entries \<Rightarrow> error + entries" where
  "rename_entry src dst es =
     (case map_of es src of
        None \<Rightarrow> Inl (FileNotFoundError src)
      | Some node \<Rightarrow>
          if src = dst then Inr es
          else (case map_of es dst of
                  None \<Rightarrow> Inr (map (\<lambda>e. if fst e = src then (dst, snd e) else e) es)
                | Some old \<Rightarrow>
                    if is_dir node \<noteq> is_dir old \<or> (is_dir old \<and> old \<noteq> Dir [])
                    then Inl (OtherError dst)
                    else Inr (map (\<lambda>e. if fst e = src then (dst, snd e) else e)
                                (filter (\<lambda>e. fst e \<noteq> dst) es))))"

definition convert_file :: "string \<Rightarrow> string \<Rightarrow> string \<Rightarrow> string step" where
  "convert_file curr_ext new_ext filename w =
     (let stem = split_dot_first filename;
          w1 = record_event (Rename (stem @ curr_ext) (stem @ new_ext)) w in
      case temp w1 of
        None \<Rightarrow> (Inl (FileNotFoundError (stem @ curr_ext)), w1)
      | Some es \<Rightarrow>
          (case rename_entry (stem @ curr_ext) (stem @ new_ext) es of
             Inl e \<Rightarrow> (Inl e, w1)
           | Inr es' \<Rightarrow> (Inr (stem @ new_ext), w1\<lparr>temp := Some es'\<rparr>)))"

subsection \<open>\<^verbatim>\<open>change_pictures\<close>\<close>

definition change_pictures :: "string \<Rightarrow> unit step" where
  "change_pictures filename w =
     (let w1 = record_event (Transform filename) w in
      case temp w1 of
        None \<Rightarrow> (Inl (FileNotFoundError filename), w1)
      | Some es \<Rightarrow>
          (case map_of es filename of
             None \<Rightarrow> (Inl (FileNotFoundError filename), w1)
           | Some (Dir _) \<Rightarrow> (Inl (OtherError filename), w1)
           | Some (File (Bytes _)) \<Rightarrow> (Inl (OtherError ''Error tokenizing data''), w1)
           | Some (File (Table rows)) \<Rightarrow>
               (case change_rows rows of
                  Inl e \<Rightarrow> (Inl e, w1)
                | Inr rows' \<Rightarrow>
                    (Inr (), w1\<lparr>temp := Some (map (\<lambda>e. if fst e = filename
                                                        then (filename, File (Table rows')) else e) es)\<rparr>))))"

subsection \<open>\<^verbatim>\<open>ftp_upload\<close>\<close>

fun stor_all :: "env \<Rightarrow> string list \<Rightarrow> unit step" where
  "stor_all ev [] w = (Inr (), w)"
| "stor_all ev (name # rest) w =
     (let w1 = record_event (Stor name) w in
      case ftp_stor ev name of
        Some e \<Rightarrow> (Inl e, w1)
      | None \<Rightarrow> stor_all ev rest (w1\<lparr>uploaded := uploaded w1 @ [name]\<rparr>))"

text \<open>\<^verbatim>\<open>os.walk\<close> of a directory that does not exist yields nothing.\<close>

definition ftp_upload :: "env \<Rightarrow> string \<Rightarrow> unit step" where
  "ftp_upload ev path w =
     (let w1 = record_event UploadSession w in
      case ftp_login ev of
        Some e \<Rightarrow> (Inl e, w1)
      | None \<Rightarrow>
          (case temp w1 of
             None \<Rightarrow> (Inr (), w1)
           | Some es \<Rightarrow> stor_all ev (upload_names path es) w1))"

subsection \<open>\<^verbatim>\<open>remove_temp_files\<close> and \<^verbatim>\<open>os.rmdir\<close>\<close>

text \<open>
  The loop of \<^verbatim>\<open>remove_temp_files\<close> deletes the entries one by one. When a deletion
  raises, the handler formats its message with the undefined name \<^verbatim>\<open>filepath\<close>, which
  raises \<^verbatim>\<open>NameError\<close> out of the function.
\<close>

fun remove_entries :: "env \<Rightarrow> string list \<Rightarrow> unit step" where
  "remove_entries ev [] w = (Inr (), w)"
| "remove_entries ev (name # rest) w =
     (let w1 = record_event (Unlink name) w in
      case delete_error ev name of
        Some e \<Rightarrow> (Inl (NameError ''name filepath is not defined''), w1)
      | None \<Rightarrow>
          remove_entries ev rest
            (w1\<lparr>temp := map_option (filter (\<lambda>e. fst e \<noteq> name)) (temp w1)\<rparr>))"

definition remove_temp_files :: "env \<Rightarrow> unit step" where
  "remove_temp_files ev w =
     (let w1 = record_event RemoveTempFiles w in
      case temp w1 of
        None \<Rightarrow> (Inl (FileNotFoundError (temp_path ev)), w1)
      | Some es \<Rightarrow> remove_entries ev (map fst es) w1)"

definition rmdir :: "env \<Rightarrow> unit step" where
  "rmdir ev w =
     (let w1 = record_event Rmdir w in
      case temp w1 of
        None \<Rightarrow> (Inl (FileNotFoundError (temp_path ev)), w1)
      | Some es \<Rightarrow>
          if es = [] then (Inr (), w1\<lparr>temp := None\<rparr>)
          else (Inl (OtherError ''Directory not empty''), w1))"

subsection \<open>\<^verbatim>\<open>main\<close>\<close>

text \<open>The body of the \<^verbatim>\<open>try\<close> block (lines 306 to 313).\<close>

definition main_try :: "env \<Rightarrow> unit step" where
  "main_try ev =
     and_then (download_sftp ev) (\<lambda>filename.
     and_then (unzip_file ev filename) (\<lambda>_.
     and_then (convert_file ''.txt'' ''.csv'' filename) (\<lambda>filename.
     and_then (change_pictures filename) (\<lambda>_.
     and_then (convert_file ''.csv'' ''.txt'' filename) (\<lambda>filename.
     and_then (ftp_upload ev (temp_path ev)) (\<lambda>_.
     and_then (remove_temp_files ev) (\<lambda>_.
     rmdir ev)))))))"

text \<open>\<^verbatim>\<open>str(e)\<close>: the message; for a \<^verbatim>\<open>KeyError\<close>, the message in quotes.\<close>

fun py_str :: "error \<Rightarrow> string" where
  "py_str (FTPConnectionError m) = m"
| "py_str (KeyError m) = [CHR 0x27] @ m @ [CHR 0x27]"
| "py_str (DuplicateFileError m) = m"
| "py_str (FileNotFoundError m) = m"
| "py_str (TypeError m) = m"
| "py_str (AttributeError m) = m"
| "py_str (OverflowError m) = m"
| "py_str (NameError m) = m"
| "py_str (OtherError m) = m"

text \<open>The four \<^verbatim>\<open>except\<close> clauses of \<^verbatim>\<open>main\<close>, in their order.\<close>

fun handler_message :: "error \<Rightarrow> string" where
  "handler_message (FTPConnectionError m) = py_str (FTPConnectionError m)"
| "handler_message (KeyError m) = py_str (KeyError m)"
| "handler_message (DuplicateFileError m) = py_str (DuplicateFileError m)"
| "handler_message e = ''Unknown error: '' @ py_str e"

definition main :: "env \<Rightarrow> world \<Rightarrow> world" where
  "main ev w =
     (let w0 = w\<lparr>messages := messages w @ [''An error has occurred:'']\<rparr> in
      case main_try ev w0 of
        (Inr _, w1) \<Rightarrow> w1
      | (Inl e, w1) \<Rightarrow>
          (let w2 = w1\<lparr>messages := messages w1 @ [handler_message e]\<rparr>
           in w2\<lparr>notified := notified w2 @ [messages w2]\<rparr>))"

text \<open>A pending piece of text, put in front of the first of the lines that follow.\<close>

definition join_first :: "string \<Rightarrow> string list \<Rightarrow> string list" where
  "join_first cur ls = (case ls of [] \<Rightarrow> (if cur = [] then [] else [cur]) | l # rest \<Rightarrow> (cur @ l) # rest)"

text \<open>
  The statements of the \<^verbatim>\<open>try\<close> block that follow the download (lines 307 to 313),
  and the ones that follow the expansion (lines 308 to 313).
\<close>

definition after_unzip :: "env \<Rightarrow> string \<Rightarrow> unit step" where
  "after_unzip ev filename =
     and_then (convert_file ''.txt'' ''.csv'' filename) (\<lambda>filename.
     and_then (change_pictures filename) (\<lambda>_.
     and_then (convert_file ''.csv'' ''.txt'' filename) (\<lambda>filename.
     and_then (ftp_upload ev (temp_path ev)) (\<lambda>_.
     and_then (remove_temp_files ev) (\<lambda>_.
     rmdir ev)))))"

definition after_download :: "env \<Rightarrow> string \<Rightarrow> unit step" where
  "after_download ev filename =
     and_then (unzip_file ev filename) (\<lambda>_. after_unzip ev filename)"

text \<open>The state in which \<^verbatim>\<open>main\<close> enters its \<^verbatim>\<open>try\<close> block.\<close>

definition entered :: "world \<Rightarrow> world" where
  "entered w = w\<lparr>messages := messages w @ [''An error has occurred:'']\<rparr>"

text \<open>
  The events of the steps that follow the download and its ledger entry.
\<close>

fun later_event :: "event \<Rightarrow> bool" where
  "later_event (Download _) = False"
| "later_event (LedgerAppend _) = False"
| "later_event _ = True"

text \<open>
  What the steps after the download leave alone: they add events of their own kind
  only, and do not touch the ledger, the messages or the notifier.
\<close>

definition later_steps :: "world \<Rightarrow> world \<Rightarrow> bool" where
  "later_steps w w' =
     ((\<exists>evs. trace w' = trace w @ evs \<and> list_all later_event evs)
      \<and> ledger_file w' = ledger_file w \<and> messages w' = messages w
      \<and> notified w' = notified w)"

text \<open>A step keeps the working area when it does not remove an existing one.\<close>

definition keeps_area :: "world \<Rightarrow> world \<Rightarrow> bool" where
  "keeps_area w w' = (temp w \<noteq> None \<longrightarrow> temp w' \<noteq> None)"

section \<open>Concrete inputs\<close>

text \<open>Inputs on which the properties below are exercised.\<close>

definition ex_dir :: "remote_entry list" where
  "ex_dir = [\<lparr>entry_name = ''ops_mdm_veh_inven_en_fr_vw_can_20201207.zip'', entry_mtime = 1\<rparr>,
             \<lparr>entry_name = ''readme.txt'', entry_mtime = 9\<rparr>,
             \<lparr>entry_name = ''ops_mdm_veh_inven_en_fr_vw_can_20201206.zip'', entry_mtime = 5\<rparr>]"

text \<open>The same directory with other modification times.\<close>

definition ex_dir_touched :: "remote_entry list" where
  "ex_dir_touched = [\<lparr>entry_name = ''ops_mdm_veh_inven_en_fr_vw_can_20201207.zip'', entry_mtime = 2\<rparr>,
             \<lparr>entry_name = ''readme.txt'', entry_mtime = 3\<rparr>,
             \<lparr>entry_name = ''ops_mdm_veh_inven_en_fr_vw_can_20201206.zip'', entry_mtime = 99\<rparr>]"

definition ex_row_three :: row where
  "ex_row_three = [(''VIN'', Str ''WVW123''), (''NON_TRASH_PHOTO_COUNT'', Num (Fin 3)),
                   (''IMAGE_URL_PATTERN'', Str ''http://h/a/seq#.jpg'')]"

definition ex_row_dot :: row where
  "ex_row_dot = [(''VIN'', Str ''WVW123''), (''NON_TRASH_PHOTO_COUNT'', Num (Fin 1)),
                 (''IMAGE_URL_PATTERN'', Str ''http://h/image.seq#.jpg'')]"

definition ex_row_text :: row where
  "ex_row_text = [(''VIN'', Str ''WVW123''), (''NON_TRASH_PHOTO_COUNT'', Str ''many''),
                  (''IMAGE_URL_PATTERN'', Str ''http://h/a/seq#.jpg'')]"

definition ex_row_absent :: row where
  "ex_row_absent = [(''VIN'', Str ''WVW123''), (''NON_TRASH_PHOTO_COUNT'', Num NaN),
                    (''IMAGE_URL_PATTERN'', Str ''http://h/a/seq#.jpg'')]"

definition ex_row_negative :: row where
  "ex_row_negative = [(''VIN'', Str ''WVW123''), (''NON_TRASH_PHOTO_COUNT'', Num (Fin (- 2))),
                      (''IMAGE_URL_PATTERN'', Num NaN)]"

definition ex_tree :: entries where
  "ex_tree = [(''data.txt'', File (Bytes [])),
              (''__MACOSX'', Dir [(''._data.txt'', File (Bytes [])),
                                (''sub'', Dir [(''._x'', File (Bytes []))])])]"

definition ex_cwd_env :: env where
  "ex_cwd_env = \<lparr> getcwd = ''/home/vw'', sftp_session = Connected, vw_out = None,
      sftp_get = (\<lambda>f. Inl (OtherError f)),
      extractall = (\<lambda>d area. (None, area)),
      ftp_login = None, ftp_stor = (\<lambda>n. None), delete_error = (\<lambda>n. None) \<rparr>"

text \<open>
  A run: the source holds two archives, the newer one has one table with one record;
  every outside call succeeds.
\<close>

definition ex_members :: "row \<Rightarrow> entries" where
  "ex_members r = [(''ops_mdm_veh_inven_en_fr_vw_can_20201207.txt'', File (Table [r]))]"

definition ex_env :: "row \<Rightarrow> env" where
  "ex_env r = \<lparr> getcwd = ''/home/vw'', sftp_session = Connected,
      vw_out = Some ex_dir,
      sftp_get = (\<lambda>f. Inr (ZipArchive (ex_members r))),
      extractall = (\<lambda>d area. case d of
                       ZipArchive ms \<Rightarrow> (None, Some ms)
                     | OtherData _ \<Rightarrow> (Some (OtherError ''File is not a zip file''), area)),
      ftp_login = None, ftp_stor = (\<lambda>n. None), delete_error = (\<lambda>n. None) \<rparr>"

definition ex_world :: world where
  "ex_world = \<lparr> ledger_file = Some [], cwd_files = [], temp = None, uploaded = [],
      messages = [], notified = [], trace = [] \<rparr>"

text \<open>The ledger after that archive has been recorded, and a missing ledger.\<close>

definition ex_world_seen :: world where
  "ex_world_seen = ex_world\<lparr>ledger_file :=
      Some (''ops_mdm_veh_inven_en_fr_vw_can_20201207.zip.zip'' @ [newline])\<rparr>"

definition ex_world_fresh :: world where
  "ex_world_fresh = ex_world\<lparr>ledger_file := None\<rparr>"

section \<open>Properties\<close>

subsection \<open>Strings and the ledger\<close>

lemma startswith_iff: "startswith s p = (\<exists>zs. s = p @ zs)"
  by (induction s p rule: startswith.induct) auto

lemma py_in_iff: "py_in n h = (\<exists>ps ss. h = ps @ n @ ss)"
proof (induction h)
  case Nil
  then show ?case by auto
next
  case (Cons c cs)
  show ?case
  proof
    assume "py_in n (c # cs)"
    then consider "startswith (c # cs) n" | "py_in n cs" by auto
    then show "\<exists>ps ss. c # cs = ps @ n @ ss"
    proof cases
      case 1
      then obtain zs where "c # cs = n @ zs" by (auto simp: startswith_iff)
      then have "c # cs = [] @ n @ zs" by simp
      then show ?thesis by blast
    next
      case 2
      then obtain ps ss where "cs = ps @ n @ ss" using Cons.IH by auto
      then have "c # cs = (c # ps) @ n @ ss" by simp
      then show ?thesis by blast
    qed
  next
    assume "\<exists>ps ss. c # cs = ps @ n @ ss"
    then obtain ps ss where eq: "c # cs = ps @ n @ ss" by blast
    show "py_in n (c # cs)"
    proof (cases ps)
      case Nil
      then have "startswith (c # cs) n" using eq by (auto simp: startswith_iff)
      then show ?thesis by simp
    next
      case (Cons p ps')
      then have "cs = ps' @ n @ ss" using eq by simp
      then have "py_in n cs" using Cons.IH by blast
      then show ?thesis by simp
    qed
  qed
qed

lemma check_loop_iff:
  "check_loop fn r ls = (r \<or> (\<exists>l \<in> set ls. py_in fn (py_strip [newline] l)))"
  by (induction ls arbitrary: r) auto

lemma dropWhile_none: "(\<forall>x \<in> set xs. \<not> P x) \<Longrightarrow> dropWhile P xs = xs"
  by (cases xs) auto

lemma py_strip_none: "set s \<inter> set chars = {} \<Longrightarrow> py_strip chars s = s"
proof -
  assume a: "set s \<inter> set chars = {}"
  have 1: "dropWhile (\<lambda>c. c \<in> set chars) s = s"
    using a by (intro dropWhile_none) auto
  have 2: "dropWhile (\<lambda>c. c \<in> set chars) (rev s) = rev s"
    using a by (intro dropWhile_none) auto
  show ?thesis by (simp add: py_strip_def 1 2)
qed

lemma py_strip_newline_end:
  "newline \<notin> set cur \<Longrightarrow> py_strip [newline] (cur @ [newline]) = cur"
proof (cases cur)
  case Nil
  then show ?thesis by (simp add: py_strip_def)
next
  case (Cons a as)
  assume n: "newline \<notin> set cur"
  then have "dropWhile (\<lambda>c. c \<in> set [newline]) (cur @ [newline]) = cur @ [newline]"
    using Cons by auto
  moreover have "dropWhile (\<lambda>c. c \<in> set [newline]) (rev cur) = rev cur"
    using n by (intro dropWhile_none) auto
  ultimately show ?thesis by (simp add: py_strip_def)
qed


lemma readlines_text_lines:
  "newline \<notin> set cur \<Longrightarrow>
   map (py_strip [newline]) (readlines_from cur cs) = join_first cur (text_lines cs)"
proof (induction cs arbitrary: cur)
  case Nil
  then show ?case by (simp add: join_first_def py_strip_none)
next
  case (Cons c cs)
  show ?case
  proof (cases "c = newline")
    case True
    have "map (py_strip [newline]) (readlines_from [] cs) = join_first [] (text_lines cs)"
      using Cons.IH [of "[]"] by simp
    then show ?thesis using True Cons.prems
      by (simp add: join_first_def py_strip_newline_end split: list.splits)
  next
    case False
    then have "newline \<notin> set (cur @ [c])" using Cons.prems by auto
    from Cons.IH [OF this] show ?thesis using False
      by (simp add: join_first_def split: list.splits)
  qed
qed

lemma file_lines_text_lines:
  "map (py_strip [newline]) (file_lines content) = text_lines content"
  using readlines_text_lines [of "[]" content]
  by (simp add: file_lines_def join_first_def split: list.splits)

text \<open>
  Claim C5. For every queried name and every ledger content, \<^verbatim>\<open>check_duplicate\<close>
  returns true if and only if some line of the ledger contains the name as a substring
  (a contiguous part of the line, not only the whole line).
\<close>

theorem check_duplicate_substring:
  "check_duplicate name (Some content) =
     Inr (\<exists>line \<in> set (text_lines content). \<exists>pre post. line = pre @ name @ post)"
proof -
  have "check_loop name False (file_lines content)
        = (\<exists>l \<in> set (map (py_strip [newline]) (file_lines content)). py_in name l)"
    by (simp add: check_loop_iff)
  then show ?thesis
    by (simp add: check_duplicate_def file_lines_text_lines py_in_iff)
qed

text \<open>The two queries of the specification, and one that no line contains.\<close>

theorem check_duplicate_substring_witness:
  "check_duplicate ''foo_20200101'' (Some (''foo_20200101.zip'' @ [newline])) = Inr True
   \<and> check_duplicate ''foo_2020010'' (Some (''foo_20200101.zip'' @ [newline])) = Inr True
   \<and> check_duplicate ''foo_20200102'' (Some (''foo_20200101.zip'' @ [newline])) = Inr False"
proof -
  have l: "text_lines (''foo_20200101.zip'' @ [newline]) = [''foo_20200101.zip'']"
    by (simp add: newline_def)
  have 1: "\<exists>pre post. ''foo_20200101.zip'' = pre @ ''foo_20200101'' @ post"
    unfolding py_in_iff [symmetric] by simp
  have 2: "\<exists>pre post. ''foo_20200101.zip'' = pre @ ''foo_2020010'' @ post"
    unfolding py_in_iff [symmetric] by simp
  have 3: "\<not> (\<exists>pre post. ''foo_20200101.zip'' = pre @ ''foo_20200102'' @ post)"
    unfolding py_in_iff [symmetric] by simp
  have a: "check_duplicate ''foo_20200101'' (Some (''foo_20200101.zip'' @ [newline])) = Inr True"
    unfolding check_duplicate_substring l using 1 by simp
  have b: "check_duplicate ''foo_2020010'' (Some (''foo_20200101.zip'' @ [newline])) = Inr True"
    unfolding check_duplicate_substring l using 2 by simp
  have c: "check_duplicate ''foo_20200102'' (Some (''foo_20200101.zip'' @ [newline])) = Inr False"
    unfolding check_duplicate_substring l using 3 by simp
  show ?thesis using a b c by simp
qed

text \<open>
  Claim C3 says that recording \<^verbatim>\<open>x.txt\<close> stores \<^verbatim>\<open>x.zip\<close>. The code strips the
  characters \<^verbatim>\<open>.\<close>, \<^verbatim>\<open>t\<close> and \<^verbatim>\<open>x\<close> from both ends of the name, so for
  \<^verbatim>\<open>x.txt\<close> nothing is left of the stem and the stored line is \<^verbatim>\<open>.zip\<close>. A
  candidate name whose stem ends with one of these characters loses them too, and the
  name of an archive (ending in \<^verbatim>\<open>.zip\<close>) keeps its suffix and gets a second one.
\<close>

theorem log_file_x_txt:
  "stored_name ''x.txt'' = ''.zip''
   \<and> log_file ''x.txt'' (Some []) = Some (''.zip'' @ [newline])
   \<and> stored_name ''ops_mdm_veh_inven_en_fr_vw_can_latest.txt''
       = ''ops_mdm_veh_inven_en_fr_vw_can_lates.zip''
   \<and> stored_name ''ops_mdm_veh_inven_en_fr_vw_can_20201207.zip''
       = ''ops_mdm_veh_inven_en_fr_vw_can_20201207.zip.zip''"
  by (simp add: stored_name_def log_file_def py_strip_def)

subsection \<open>The selector\<close>

lemma rev_sort_head:
  assumes "rev (sort xs) = m # rest"
  shows "m \<in> set xs \<and> (\<forall>x \<in> set xs. x \<le> m)"
proof -
  have eq: "sort xs = rev rest @ [m]"
    using assms by (metis rev.simps(2) rev_rev_ident)
  have "sorted (rev rest @ [m])"
    using eq by (metis sorted_sort)
  then have le: "\<forall>x \<in> set rest. x \<le> m"
    by (simp add: sorted_append)
  have "set xs = set (rev rest @ [m])"
    using eq by (metis set_sort)
  then show ?thesis using le by auto
qed

text \<open>
  Claim C6. When some name of the listing starts with the prefix, the selector chooses a
  name of the listing that starts with the prefix and is greater than or equal to every
  other such name in the lexicographic order; the choice depends on the names only, not
  on the modification times. When no name starts with the prefix it raises the
  not-found error (\<^verbatim>\<open>KeyError\<close>).
\<close>

theorem select_newest_greatest:
  "(matching_files (listdir es) \<noteq> [] \<longrightarrow>
      (\<exists>m. select_newest (listdir es) = Inr m
           \<and> m \<in> set (listdir es) \<and> startswith m PREFIX
           \<and> (\<forall>f \<in> set (listdir es). startswith f PREFIX \<longrightarrow> f \<le> m)))
   \<and> (matching_files (listdir es) = [] \<longrightarrow>
        select_newest (listdir es) = Inl (KeyError not_found_message))
   \<and> (map entry_name es' = map entry_name es \<longrightarrow>
        select_newest (listdir es') = select_newest (listdir es))"
proof (intro conjI impI)
  assume ne: "matching_files (listdir es) \<noteq> []"
  then have "rev (sort (matching_files (listdir es))) \<noteq> []"
    by (metis rev_is_Nil_conv set_empty set_sort)
  then obtain m rest where r: "rev (sort (matching_files (listdir es))) = m # rest"
    by (cases "rev (sort (matching_files (listdir es)))") auto
  from rev_sort_head [OF r]
  have "m \<in> set (matching_files (listdir es))"
    and "\<forall>x \<in> set (matching_files (listdir es)). x \<le> m" by auto
  moreover have "select_newest (listdir es) = Inr m"
    using ne r by (simp add: select_newest_def)
  ultimately show "\<exists>m. select_newest (listdir es) = Inr m
           \<and> m \<in> set (listdir es) \<and> startswith m PREFIX
           \<and> (\<forall>f \<in> set (listdir es). startswith f PREFIX \<longrightarrow> f \<le> m)"
    by (auto simp: matching_files_def)
next
  assume "matching_files (listdir es) = []"
  then show "select_newest (listdir es) = Inl (KeyError not_found_message)"
    by (simp add: select_newest_def)
next
  assume "map entry_name es' = map entry_name es"
  then show "select_newest (listdir es') = select_newest (listdir es)"
    by (simp add: listdir_def)
qed

text \<open>A listing with two candidates, the same listing with other modification times, and an empty one.\<close>

theorem select_newest_greatest_witness:
  "matching_files (listdir ex_dir) \<noteq> []
   \<and> select_newest (listdir ex_dir) = Inr ''ops_mdm_veh_inven_en_fr_vw_can_20201207.zip''
   \<and> map entry_name ex_dir_touched = map entry_name ex_dir
   \<and> select_newest (listdir ex_dir_touched) = Inr ''ops_mdm_veh_inven_en_fr_vw_can_20201207.zip''
   \<and> matching_files (listdir []) = []
   \<and> select_newest (listdir []) = Inl (KeyError not_found_message)"
proof -
  have ne: "matching_files (listdir ex_dir) \<noteq> []"
    by (simp add: ex_dir_def listdir_def matching_files_def PREFIX_def)
  have same: "map entry_name ex_dir_touched = map entry_name ex_dir"
    by (simp add: ex_dir_def ex_dir_touched_def)
  have e: "matching_files (listdir []) = []"
    by (simp add: listdir_def matching_files_def)
  have sel: "select_newest (listdir ex_dir) = Inr ''ops_mdm_veh_inven_en_fr_vw_can_20201207.zip''"
    by (simp add: ex_dir_def listdir_def select_newest_def matching_files_def PREFIX_def)
  have g: "\<exists>m. select_newest (listdir ex_dir) = Inr m
           \<and> m \<in> set (listdir ex_dir) \<and> startswith m PREFIX
           \<and> (\<forall>f \<in> set (listdir ex_dir). startswith f PREFIX \<longrightarrow> f \<le> m)"
    by (rule mp [OF conjunct1 [OF select_newest_greatest [of ex_dir ex_dir_touched]] ne])
  have t: "select_newest (listdir ex_dir_touched) = select_newest (listdir ex_dir)"
    by (rule mp [OF conjunct2 [OF conjunct2 [OF select_newest_greatest [of ex_dir ex_dir_touched]]] same])
  have n: "select_newest (listdir []) = Inl (KeyError not_found_message)"
    by (rule mp [OF conjunct1 [OF conjunct2 [OF select_newest_greatest [of "[]" "[]"]]] e])
  show ?thesis
    by (intro conjI) (rule ne, rule sel, rule same, simp only: t sel, rule e, rule n)
qed

subsection \<open>The record transformer\<close>

lemma dropWhile_all: "(\<forall>x \<in> set xs. P x) \<Longrightarrow> dropWhile P (xs @ ys) = dropWhile P ys"
  by (induction xs) auto

lemma dropWhile_stop: "xs \<noteq> [] \<Longrightarrow> \<not> P (hd xs) \<Longrightarrow> dropWhile P xs = xs"
  by (cases xs) auto

lemma py_strip_suffix:
  assumes "set sfx \<subseteq> set chars"
    and "p = [] \<or> (hd p \<notin> set chars \<and> last p \<notin> set chars)"
  shows "py_strip chars (p @ sfx) = p"
proof (cases "p = []")
  case True
  have d: "dropWhile (\<lambda>c. c \<in> set chars) sfx = []"
    using assms(1) dropWhile_eq_Nil_conv [of "\<lambda>c. c \<in> set chars" sfx] by blast
  show ?thesis unfolding py_strip_def True append_Nil d by simp
next
  case False
  then have h: "hd p \<notin> set chars" and l: "last p \<notin> set chars" using assms(2) by auto
  have 1: "dropWhile (\<lambda>c. c \<in> set chars) (p @ sfx) = p @ sfx"
    using False h by (intro dropWhile_stop) auto
  have "dropWhile (\<lambda>c. c \<in> set chars) (rev sfx @ rev p) = dropWhile (\<lambda>c. c \<in> set chars) (rev p)"
    using assms(1) by (intro dropWhile_all) auto
  also have "\<dots> = rev p"
    using False l by (intro dropWhile_stop) (auto simp: hd_rev)
  finally show ?thesis by (simp add: py_strip_def 1)
qed

lemma build_links_ok:
  "row_get r URL_COLUMN = Inr (Str t) \<Longrightarrow>
   build_links r ns acc =
     Inr (acc @ map (\<lambda>i. py_strip ''seq#.jpg'' t @ str_nat (i + 1) @ ''.jpg'' @ ''|'') ns)"
  by (induction ns arbitrary: acc) auto

lemma butlast_concat_join:
  "butlast (concat (map (\<lambda>x. x @ ''|'') xs)) = join_with ''|'' xs"
proof (induction xs rule: induct_list012)
  case 1
  then show ?case by simp
next
  case (2 x)
  then show ?case by simp
next
  case (3 x y ys)
  have "concat (map (\<lambda>x. x @ ''|'') (y # ys)) \<noteq> []" by simp
  then have "butlast (x @ ''|'' @ concat (map (\<lambda>x. x @ ''|'') (y # ys)))
           = x @ ''|'' @ butlast (concat (map (\<lambda>x. x @ ''|'') (y # ys)))"
    by (simp add: butlast_append)
  then show ?case using 3 by simp
qed

lemma links_numbered:
  "butlast (concat (map (\<lambda>i. p @ str_nat (i + 1) @ ''.jpg'' @ ''|'') [0 ..< n])) = numbered_urls p n"
proof -
  have "map (\<lambda>i. p @ str_nat (i + 1) @ ''.jpg'' @ ''|'') [0 ..< n]
        = map (\<lambda>x. x @ ''|'') (map (\<lambda>i. p @ str_nat i @ ''.jpg'') (map Suc [0 ..< n]))"
    by simp
  also have "map Suc [0 ..< n] = [1 ..< Suc n]"
    by (simp only: map_Suc_upt One_nat_def)
  finally show ?thesis
    by (simp only: butlast_concat_join numbered_urls_def)
qed

lemma links_numbered_Suc:
  "butlast (concat (map (\<lambda>i. p @ str_nat (Suc i) @ ''.jpg|'') [0 ..< n])) = numbered_urls p n"
  using links_numbered [of p n] by simp

text \<open>
  Claim C2, as the code has it. For a record whose photo count is a finite number
  \<open>q \<ge> 0\<close> and whose template is \<open>p @ ''seq#.jpg''\<close>, where \<open>p\<close> is empty or neither
  begins nor ends with one of the characters of \<^verbatim>\<open>seq#.jpg\<close>, the URL field becomes
  the \<open>\<lfloor>q\<rfloor>\<close> links \<open>p @ i @ ''.jpg''\<close> for \<open>i\<close> from 1 to \<open>\<lfloor>q\<rfloor>\<close>, joined with
  \<^verbatim>\<open>|\<close>, without a trailing delimiter. For an absent photo count (NaN) the field
  becomes the empty string. A photo count that is text raises \<^verbatim>\<open>TypeError\<close>.
\<close>

theorem change_row_links:
  "(row_get r COUNT_COLUMN = Inr (Num (Fin q)) \<and> 0 \<le> q
      \<and> row_get r URL_COLUMN = Inr (Str (p @ ''seq#.jpg''))
      \<and> (p = [] \<or> (hd p \<notin> set ''seq#.jpg'' \<and> last p \<notin> set ''seq#.jpg''))
    \<longrightarrow> change_row r = Inr (row_set URL_COLUMN (Str (numbered_urls p (nat \<lfloor>q\<rfloor>))) r))
   \<and> (row_get r COUNT_COLUMN = Inr (Num NaN)
    \<longrightarrow> change_row r = Inr (row_set URL_COLUMN (Str []) r))
   \<and> (row_get r COUNT_COLUMN = Inr (Str s)
    \<longrightarrow> change_row r = Inl (TypeError ''must be real number, not str''))"
proof (intro conjI impI)
  assume a: "row_get r COUNT_COLUMN = Inr (Num (Fin q)) \<and> 0 \<le> q
      \<and> row_get r URL_COLUMN = Inr (Str (p @ ''seq#.jpg''))
      \<and> (p = [] \<or> (hd p \<notin> set ''seq#.jpg'' \<and> last p \<notin> set ''seq#.jpg''))"
  then have st: "py_strip ''seq#.jpg'' (p @ ''seq#.jpg'') = p"
    by (intro py_strip_suffix) auto
  have bl: "build_links r (py_range (py_trunc q)) [] =
     Inr (map (\<lambda>i. p @ str_nat (i + 1) @ ''.jpg'' @ ''|'') [0 ..< nat \<lfloor>q\<rfloor>])"
    using a build_links_ok [of r "p @ ''seq#.jpg''" "py_range (py_trunc q)" "[]"]
    by (simp only: st py_range_def py_trunc_def append_Nil if_True)
  show "change_row r = Inr (row_set URL_COLUMN (Str (numbered_urls p (nat \<lfloor>q\<rfloor>))) r)"
    using a by (simp add: change_row_def bl write_links_def links_numbered_Suc del: upt.simps)
next
  assume "row_get r COUNT_COLUMN = Inr (Num NaN)"
  then show "change_row r = Inr (row_set URL_COLUMN (Str []) r)"
    by (simp add: change_row_def write_links_def)
next
  assume "row_get r COUNT_COLUMN = Inr (Str s)"
  then show "change_row r = Inl (TypeError ''must be real number, not str'')"
    by (simp add: change_row_def)
qed

text \<open>A count of three, an absent count and a count that is text.\<close>

theorem change_row_links_witness:
  "change_row ex_row_three =
      Inr (row_set URL_COLUMN (Str ''http://h/a/1.jpg|http://h/a/2.jpg|http://h/a/3.jpg'') ex_row_three)
   \<and> change_row ex_row_absent = Inr (row_set URL_COLUMN (Str []) ex_row_absent)
   \<and> change_row ex_row_text = Inl (TypeError ''must be real number, not str'')"
proof -
  have c: "row_get ex_row_three COUNT_COLUMN = Inr (Num (Fin 3))"
    by (simp add: ex_row_three_def row_get_def COUNT_COLUMN_def)
  have u: "row_get ex_row_three URL_COLUMN = Inr (Str (''http://h/a/'' @ ''seq#.jpg''))"
    by (simp add: ex_row_three_def row_get_def URL_COLUMN_def)
  have b: "hd ''http://h/a/'' \<notin> set ''seq#.jpg'' \<and> last ''http://h/a/'' \<notin> set ''seq#.jpg''"
    by simp
  have n: "numbered_urls ''http://h/a/'' 3 = ''http://h/a/1.jpg|http://h/a/2.jpg|http://h/a/3.jpg''"
    by code_simp
  have f: "nat \<lfloor>3::rat\<rfloor> = 3" by simp
  have 1: "change_row ex_row_three =
      Inr (row_set URL_COLUMN (Str ''http://h/a/1.jpg|http://h/a/2.jpg|http://h/a/3.jpg'') ex_row_three)"
    using change_row_links [of ex_row_three 3 "''http://h/a/''"] c u b
    unfolding f n by simp
  have a: "row_get ex_row_absent COUNT_COLUMN = Inr (Num NaN)"
    by (simp add: ex_row_absent_def row_get_def COUNT_COLUMN_def)
  have 2: "change_row ex_row_absent = Inr (row_set URL_COLUMN (Str []) ex_row_absent)"
    using change_row_links [of ex_row_absent] a by blast
  have t: "row_get ex_row_text COUNT_COLUMN = Inr (Str ''many'')"
    by (simp add: ex_row_text_def row_get_def COUNT_COLUMN_def)
  have 3: "change_row ex_row_text = Inl (TypeError ''must be real number, not str'')"
    using change_row_links [of ex_row_text _ _ "''many''"] t by blast
  show ?thesis using 1 2 3 by simp
qed

text \<open>
  Claim C2 as it is stated fails on a template whose part before \<^verbatim>\<open>seq#.jpg\<close> ends
  with a character of \<^verbatim>\<open>seq#.jpg\<close>: \<^verbatim>\<open>strip\<close> removes \<^verbatim>\<open>ge.\<close> too. It also fails on
  a photo count that is not a number: the run raises instead of writing the empty
  string.
\<close>

theorem change_row_strip_counterexample:
  "change_row ex_row_dot = Inr (row_set URL_COLUMN (Str ''http://h/ima1.jpg'') ex_row_dot)
   \<and> numbered_urls ''http://h/image.'' 1 = ''http://h/image.1.jpg''
   \<and> change_row ex_row_dot \<noteq> Inr (row_set URL_COLUMN (Str (numbered_urls ''http://h/image.'' 1)) ex_row_dot)
   \<and> change_row ex_row_text = Inl (TypeError ''must be real number, not str'')
   \<and> change_row ex_row_text \<noteq> Inr (row_set URL_COLUMN (Str []) ex_row_text)"
proof -
  have 1: "change_row ex_row_dot = Inr (row_set URL_COLUMN (Str ''http://h/ima1.jpg'') ex_row_dot)"
    by code_simp
  have 2: "numbered_urls ''http://h/image.'' 1 = ''http://h/image.1.jpg''"
    by code_simp
  have 3: "row_set URL_COLUMN (Str ''http://h/ima1.jpg'') ex_row_dot
        \<noteq> row_set URL_COLUMN (Str ''http://h/image.1.jpg'') ex_row_dot"
    by (simp add: ex_row_dot_def URL_COLUMN_def)
  have 4: "change_row ex_row_text = Inl (TypeError ''must be real number, not str'')"
    by code_simp
  show ?thesis unfolding 1 2 4 using 3 by simp
qed

text \<open>
  Claim C10. For a record whose photo count is a negative number the URL field becomes
  the empty string and nothing is raised (whatever the template cell holds); this is
  the result for an absent photo count too.
\<close>

theorem change_row_negative:
  "(row_get r COUNT_COLUMN = Inr (Num (Fin q)) \<and> q < 0
     \<longrightarrow> change_row r = Inr (row_set URL_COLUMN (Str []) r))
   \<and> (row_get r COUNT_COLUMN = Inr (Num NaN)
     \<longrightarrow> change_row r = Inr (row_set URL_COLUMN (Str []) r))"
proof (intro conjI impI)
  assume a: "row_get r COUNT_COLUMN = Inr (Num (Fin q)) \<and> q < 0"
  then have "\<lceil>q\<rceil> \<le> 0" by (simp add: ceiling_le_iff)
  then have "py_range (py_trunc q) = []" using a by (simp add: py_range_def py_trunc_def)
  then show "change_row r = Inr (row_set URL_COLUMN (Str []) r)"
    using a by (simp add: change_row_def write_links_def)
next
  assume "row_get r COUNT_COLUMN = Inr (Num NaN)"
  then show "change_row r = Inr (row_set URL_COLUMN (Str []) r)"
    by (simp add: change_row_def write_links_def)
qed

text \<open>A count of minus two with an empty template cell, and an absent count.\<close>

theorem change_row_negative_witness:
  "change_row ex_row_negative = Inr (row_set URL_COLUMN (Str []) ex_row_negative)
   \<and> change_row ex_row_absent = Inr (row_set URL_COLUMN (Str []) ex_row_absent)"
proof -
  have c: "row_get ex_row_negative COUNT_COLUMN = Inr (Num (Fin (- 2)))"
    by (simp add: ex_row_negative_def row_get_def COUNT_COLUMN_def)
  have a: "row_get ex_row_absent COUNT_COLUMN = Inr (Num NaN)"
    by (simp add: ex_row_absent_def row_get_def COUNT_COLUMN_def)
  have n: "(- 2 :: rat) < 0" by simp
  show ?thesis
    using change_row_negative [of ex_row_negative "- 2"] change_row_negative [of ex_row_absent] c a n
    by blast
qed

subsection \<open>The uploader\<close>

lemma startswith_prefix: "startswith s p = prefix p s"
  by (simp add: startswith_iff prefix_def)

lemma endswith_suffix: "endswith s p = suffix p s"
  by (simp add: endswith_def startswith_prefix suffix_to_prefix)

lemma suffix_after_slash:
  assumes "CHR ''/'' \<notin> set m"
  shows "suffix m (x @ ''/'' @ b) = suffix m b"
proof -
  have "suffix m (x @ (CHR ''/'' # b)) = suffix m (CHR ''/'' # b)"
    using assms by (auto simp: suffix_append)
  also have "\<dots> = suffix m b"
    using assms by (auto simp: suffix_Cons)
  finally show ?thesis by simp
qed

lemma slash_not_in_marker: "CHR ''/'' \<notin> set MARKER"
  by (simp add: MARKER_def)

lemma endswith_path_join: "endswith (path_join a b) MARKER = endswith b MARKER"
proof -
  consider (abs) "startswith b ''/''"
    | (bare) "\<not> startswith b ''/''" "a = []"
    | (slash) "\<not> startswith b ''/''" "a \<noteq> []" "endswith a ''/''"
    | (plain) "\<not> startswith b ''/''" "a \<noteq> []" "\<not> endswith a ''/''"
    by blast
  then show ?thesis
  proof cases
    case abs
    then show ?thesis by (simp add: path_join_def)
  next
    case bare
    then show ?thesis by (simp add: path_join_def)
  next
    case slash
    then obtain a' where a: "a = a' @ ''/''"
      by (auto simp: endswith_suffix suffix_def)
    have "path_join a b = a' @ ''/'' @ b"
      using slash a by (simp add: path_join_def)
    then show ?thesis
      by (simp only: endswith_suffix suffix_after_slash [OF slash_not_in_marker])
  next
    case plain
    then have "path_join a b = a @ ''/'' @ b"
      by (simp add: path_join_def)
    then show ?thesis
      by (simp only: endswith_suffix suffix_after_slash [OF slash_not_in_marker])
  qed
qed

lemma concat_concat_map: "concat (concat xss) = concat (map concat xss)"
  by (induction xss) auto

lemma upload_names_unfold:
  "upload_names d es =
     filter (\<lambda>name. \<not> endswith d MARKER) (map fst (filter (\<lambda>e. \<not> is_dir (snd e)) es))
     @ concat (map (\<lambda>e. case snd e of Dir sub \<Rightarrow> upload_names (path_join d (fst e)) sub
                                     | File _ \<Rightarrow> []) es)"
proof -
  have "concat (map (\<lambda>(new_path, subdirs, files). filter (\<lambda>name. \<not> endswith new_path MARKER) files)
          (concat (map (\<lambda>e. case snd e of Dir sub \<Rightarrow> walk (path_join d (fst e)) sub | File _ \<Rightarrow> []) es)))
      = concat (map (\<lambda>e. case snd e of Dir sub \<Rightarrow> upload_names (path_join d (fst e)) sub
                                     | File _ \<Rightarrow> []) es)"
    unfolding map_concat concat_concat_map map_map
    by (rule arg_cong [where f = concat], rule map_cong)
       (auto simp: upload_names_def split: fsnode.splits)
  then show ?thesis
    by (subst upload_names_def, subst walk.simps) (simp add: upload_names_def)
qed

lemma upload_names_files_below:
  "d = foldl path_join base segs \<Longrightarrow>
   upload_names d es =
     map snd (filter (\<lambda>f. \<not> endswith (foldl path_join base (fst f)) MARKER) (files_below segs es))"
proof (induction d es arbitrary: segs rule: walk.induct)
  case (1 d es)
  have sub: "(case snd e of Dir sub \<Rightarrow> upload_names (path_join d (fst e)) sub | File _ \<Rightarrow> [])
      = map snd (filter (\<lambda>f. \<not> endswith (foldl path_join base (fst f)) MARKER)
          (case snd e of Dir sub \<Rightarrow> files_below (segs @ [fst e]) sub | File _ \<Rightarrow> []))"
    if "e \<in> set es" for e
  proof (cases "snd e")
    case (File x)
    then show ?thesis by simp
  next
    case (Dir sub)
    have "path_join d (fst e) = foldl path_join base (segs @ [fst e])"
      using "1.prems" by simp
    from "1.IH" [OF that Dir this] show ?thesis using Dir by simp
  qed
  have top_part: "filter (\<lambda>name. \<not> endswith d MARKER) (map fst (filter (\<lambda>e. \<not> is_dir (snd e)) es))
     = map snd (filter (\<lambda>f. \<not> endswith (foldl path_join base (fst f)) MARKER)
         (map (\<lambda>e. (segs, fst e)) (filter (\<lambda>e. \<not> is_dir (snd e)) es)))"
    using "1.prems" by (induction es) auto
  have rest: "concat (map (\<lambda>e. case snd e of Dir sub \<Rightarrow> upload_names (path_join d (fst e)) sub
                                     | File _ \<Rightarrow> []) es)
     = map snd (filter (\<lambda>f. \<not> endswith (foldl path_join base (fst f)) MARKER)
         (concat (map (\<lambda>e. case snd e of Dir sub \<Rightarrow> files_below (segs @ [fst e]) sub | File _ \<Rightarrow> []) es)))"
    unfolding filter_concat map_concat map_map
    by (rule arg_cong [where f = concat], rule map_cong) (auto simp: sub)
  show ?case
    by (subst upload_names_unfold, subst files_below.simps)
       (simp only: top_part rest filter_append map_append)
qed

lemma foldl_path_join_marker:
  "endswith (foldl path_join base segs) MARKER
     = (if segs = [] then endswith base MARKER else endswith (last segs) MARKER)"
  by (induction segs rule: rev_induct) (auto simp: endswith_path_join)

lemma temp_path_no_marker: "\<not> endswith (temp_path ev) MARKER"
  by (simp add: temp_path_def endswith_path_join) (simp add: endswith_def MARKER_def)

text \<open>
  Claim C4, as the code has it. \<^verbatim>\<open>ftp_upload\<close> issues \<^verbatim>\<open>STOR\<close> with the base name of
  every regular file of the working area, in walk order, except the files whose own
  directory has a name that ends with \<^verbatim>\<open>__MACOSX\<close>. Files directly in the working
  area are always uploaded, and so are files in a subdirectory of a marker directory
  when that subdirectory's name does not end with the marker.
\<close>

theorem ftp_upload_skips_marker_directories:
  "upload_names (temp_path ev) es =
     map snd (filter (\<lambda>f. fst f = [] \<or> \<not> endswith (last (fst f)) MARKER) (files_below [] es))"
proof -
  have "upload_names (temp_path ev) es =
     map snd (filter (\<lambda>f. \<not> endswith (foldl path_join (temp_path ev) (fst f)) MARKER) (files_below [] es))"
    by (rule upload_names_files_below) simp
  also have "(\<lambda>f. \<not> endswith (foldl path_join (temp_path ev) (fst f)) MARKER)
      = (\<lambda>f. fst f = [] \<or> \<not> endswith (last (fst f)) MARKER)"
    by (auto simp: foldl_path_join_marker temp_path_no_marker)
  finally show ?thesis .
qed

text \<open>A tree with a marker directory that has a file and a subdirectory.\<close>

theorem ftp_upload_skips_marker_directories_witness:
  "files_below [] ex_tree = [([], ''data.txt''), ([''__MACOSX''], ''._data.txt''),
                             ([''__MACOSX'', ''sub''], ''._x'')]
   \<and> upload_names (temp_path ex_cwd_env) ex_tree = [''data.txt'', ''._x'']"
proof -
  have f: "files_below [] ex_tree = [([], ''data.txt''), ([''__MACOSX''], ''._data.txt''),
                             ([''__MACOSX'', ''sub''], ''._x'')]"
    unfolding ex_tree_def by code_simp
  have "upload_names (temp_path ex_cwd_env) ex_tree = [''data.txt'', ''._x'']"
    unfolding ftp_upload_skips_marker_directories f
    by (simp add: endswith_def MARKER_def)
  then show ?thesis using f by simp
qed

text \<open>
  Claim C4 as it is stated fails on that tree: the file \<^verbatim>\<open>._x\<close> lies under the path
  segment \<^verbatim>\<open>__MACOSX\<close> and is uploaded.
\<close>

theorem ftp_upload_nested_counterexample:
  "([''__MACOSX'', ''sub''], ''._x'') \<in> set (files_below [] ex_tree)
   \<and> ''__MACOSX'' \<in> set [''__MACOSX'', ''sub'']
   \<and> ''._x'' \<in> set (upload_names ''/home/vw/temp'' ex_tree)"
proof -
  have f: "files_below [] ex_tree = [([], ''data.txt''), ([''__MACOSX''], ''._data.txt''),
                             ([''__MACOSX'', ''sub''], ''._x'')]"
    unfolding ex_tree_def by code_simp
  have u: "upload_names ''/home/vw/temp'' ex_tree = [''data.txt'', ''._x'']"
    unfolding ex_tree_def by code_simp
  show ?thesis unfolding f u by simp
qed

subsection \<open>The pipeline\<close>

lemma and_then_cases:
  "and_then m f w = (r, w') \<Longrightarrow>
     (\<exists>e. m w = (Inl e, w') \<and> r = Inl e) \<or> (\<exists>x w1. m w = (Inr x, w1) \<and> f x w1 = (r, w'))"
  by (auto simp: and_then_def split: prod.splits sum.splits)

lemma main_try_unfold: "main_try ev = and_then (download_sftp ev) (after_download ev)"
  unfolding main_try_def
  by (rule arg_cong [where f = "and_then (download_sftp ev)"], rule ext)
     (simp add: after_download_def after_unzip_def)

lemma later_steps_refl: "later_steps w w"
  by (simp add: later_steps_def)

lemma later_steps_trans: "later_steps w w1 \<Longrightarrow> later_steps w1 w2 \<Longrightarrow> later_steps w w2"
  by (auto simp: later_steps_def)

lemma later_steps_event:
  "later_event e \<Longrightarrow> later_steps w (record_event e w)"
  by (simp add: later_steps_def record_event_def)

lemma and_then_later:
  assumes "\<And>w r w'. m w = (r, w') \<Longrightarrow> later_steps w w'"
    and "\<And>x w r w'. f x w = (r, w') \<Longrightarrow> later_steps w w'"
    and "and_then m f w = (r, w')"
  shows "later_steps w w'"
  using and_then_cases [OF assms(3)] assms(1,2) later_steps_trans by blast

lemma unzip_file_later: "unzip_file ev f w = (r, w') \<Longrightarrow> later_steps w w'"
  by (auto simp: unzip_file_def Let_def later_steps_def record_event_def
           split: if_splits option.splits prod.splits)

lemma convert_file_later: "convert_file a b f w = (r, w') \<Longrightarrow> later_steps w w'"
  by (auto simp: convert_file_def Let_def later_steps_def record_event_def
           split: option.splits sum.splits)

lemma change_pictures_later: "change_pictures f w = (r, w') \<Longrightarrow> later_steps w w'"
  by (auto simp: change_pictures_def Let_def later_steps_def record_event_def
           split: option.splits sum.splits fsnode.splits payload.splits)

lemma stor_all_later: "stor_all ev ns w = (r, w') \<Longrightarrow> later_steps w w'"
proof (induction ns arbitrary: w)
  case Nil
  then show ?case by (simp add: later_steps_refl)
next
  case (Cons n ns)
  show ?case
  proof (cases "ftp_stor ev n")
    case None
    let ?w1 = "(record_event (Stor n) w)\<lparr>uploaded := uploaded (record_event (Stor n) w) @ [n]\<rparr>"
    have "stor_all ev ns ?w1 = (r, w')" using Cons.prems None by (simp add: Let_def)
    then have "later_steps ?w1 w'" by (rule Cons.IH)
    moreover have "later_steps w ?w1" by (simp add: later_steps_def record_event_def)
    ultimately show ?thesis by (rule later_steps_trans [rotated])
  next
    case (Some e)
    then show ?thesis using Cons.prems
      by (auto simp: Let_def later_steps_def record_event_def)
  qed
qed

lemma ftp_upload_later: "ftp_upload ev p w = (r, w') \<Longrightarrow> later_steps w w'"
proof -
  assume a: "ftp_upload ev p w = (r, w')"
  have 0: "later_steps w (record_event UploadSession w)"
    by (simp add: later_steps_event)
  show ?thesis
  proof (cases "ftp_login ev")
    case (Some e)
    then show ?thesis using a 0 by (simp add: ftp_upload_def Let_def)
  next
    case None
    show ?thesis
    proof (cases "temp w")
      case None
      then show ?thesis using a 0 \<open>ftp_login ev = None\<close>
        by (simp add: ftp_upload_def Let_def record_event_def)
    next
      case (Some es)
      then have "stor_all ev (upload_names p es) (record_event UploadSession w) = (r, w')"
        using a \<open>ftp_login ev = None\<close> by (simp add: ftp_upload_def Let_def record_event_def)
      from stor_all_later [OF this] 0 show ?thesis by (rule later_steps_trans [rotated])
    qed
  qed
qed

lemma remove_entries_later: "remove_entries ev ns w = (r, w') \<Longrightarrow> later_steps w w'"
proof (induction ns arbitrary: w)
  case Nil
  then show ?case by (simp add: later_steps_refl)
next
  case (Cons n ns)
  show ?case
  proof (cases "delete_error ev n")
    case None
    let ?w1 = "(record_event (Unlink n) w)\<lparr>temp := map_option (filter (\<lambda>e. fst e \<noteq> n))
                  (temp (record_event (Unlink n) w))\<rparr>"
    have "remove_entries ev ns ?w1 = (r, w')" using Cons.prems None by (simp add: Let_def)
    then have "later_steps ?w1 w'" by (rule Cons.IH)
    moreover have "later_steps w ?w1" by (simp add: later_steps_def record_event_def)
    ultimately show ?thesis by (rule later_steps_trans [rotated])
  next
    case (Some e)
    then show ?thesis using Cons.prems
      by (auto simp: Let_def later_steps_def record_event_def)
  qed
qed

lemma remove_temp_files_later: "remove_temp_files ev w = (r, w') \<Longrightarrow> later_steps w w'"
proof -
  assume a: "remove_temp_files ev w = (r, w')"
  have 0: "later_steps w (record_event RemoveTempFiles w)"
    by (simp add: later_steps_event)
  show ?thesis
  proof (cases "temp w")
    case None
    then show ?thesis using a 0 by (simp add: remove_temp_files_def Let_def record_event_def)
  next
    case (Some es)
    then have "remove_entries ev (map fst es) (record_event RemoveTempFiles w) = (r, w')"
      using a by (simp add: remove_temp_files_def Let_def record_event_def)
    from remove_entries_later [OF this] 0 show ?thesis by (rule later_steps_trans [rotated])
  qed
qed

lemma rmdir_later: "rmdir ev w = (r, w') \<Longrightarrow> later_steps w w'"
  by (auto simp: rmdir_def Let_def later_steps_def record_event_def
           split: option.splits if_splits)

lemma after_unzip_later: "after_unzip ev f w = (r, w') \<Longrightarrow> later_steps w w'"
  unfolding after_unzip_def
  by (erule and_then_later [rotated 2]
      | erule convert_file_later change_pictures_later ftp_upload_later
          remove_temp_files_later rmdir_later)+

lemma after_download_later: "after_download ev f w = (r, w') \<Longrightarrow> later_steps w w'"
  unfolding after_download_def
  by (erule and_then_later [rotated 2] | erule unzip_file_later after_unzip_later)+

lemma download_sftp_cases:
  "download_sftp ev w = (r, w') \<Longrightarrow>
     (isl r \<and> w' = w)
     \<or> (\<exists>f. r = Inr f
          \<and> trace w' = trace w @ [Download f, LedgerAppend (stored_name f)]
          \<and> ledger_file w' = log_file f (ledger_file w)
          \<and> temp w' = temp w \<and> uploaded w' = uploaded w
          \<and> messages w' = messages w \<and> notified w' = notified w)"
  by (auto simp: download_sftp_def Let_def record_event_def
           split: session.splits option.splits sum.splits if_splits)
     (metis sum.disc(1))+

lemma main_fields:
  "main_try ev (entered w) = (r, w1) \<Longrightarrow>
     trace (main ev w) = trace w1 \<and> ledger_file (main ev w) = ledger_file w1
     \<and> temp (main ev w) = temp w1 \<and> cwd_files (main ev w) = cwd_files w1
     \<and> uploaded (main ev w) = uploaded w1"
  by (cases r) (simp_all add: main_def entered_def Let_def)

lemma main_notified:
  "main_try ev (entered w) = (r, w1) \<Longrightarrow>
     notified (main ev w) = (case r of Inr _ \<Rightarrow> notified w1
                             | Inl e \<Rightarrow> notified w1 @ [messages w1 @ [handler_message e]])"
  by (cases r) (simp_all add: main_def entered_def Let_def)

lemma main_try_cases:
  assumes "main_try ev w = (r, w')"
  shows "(\<exists>e. r = Inl e \<and> w' = w \<and> download_sftp ev w = (Inl e, w))
       \<or> (\<exists>f w1. download_sftp ev w = (Inr f, w1)
            \<and> trace w1 = trace w @ [Download f, LedgerAppend (stored_name f)]
            \<and> ledger_file w1 = log_file f (ledger_file w)
            \<and> temp w1 = temp w \<and> uploaded w1 = uploaded w
            \<and> messages w1 = messages w \<and> notified w1 = notified w
            \<and> after_download ev f w1 = (r, w') \<and> later_steps w1 w')"
proof -
  from assms have "and_then (download_sftp ev) (after_download ev) w = (r, w')"
    by (simp add: main_try_unfold)
  from and_then_cases [OF this] show ?thesis
  proof
    assume "\<exists>e. download_sftp ev w = (Inl e, w') \<and> r = Inl e"
    then obtain e where d: "download_sftp ev w = (Inl e, w')" and r: "r = Inl e" by blast
    from download_sftp_cases [OF d] have "w' = w" by auto
    then show ?thesis using d r by simp
  next
    assume "\<exists>x w1. download_sftp ev w = (Inr x, w1) \<and> after_download ev x w1 = (r, w')"
    then obtain f w1 where d: "download_sftp ev w = (Inr f, w1)"
      and a: "after_download ev f w1 = (r, w')" by blast
    from download_sftp_cases [OF d] after_download_later [OF a] d a
    show ?thesis by auto
  qed
qed

text \<open>
  Claim C7. The calls of a run are either none at all after the session is opened (the
  run failed before any download), or they begin with the download of a file \<open>f\<close>,
  immediately followed by the append of its ledger entry, and every call after that is
  one of the later steps (expand, rename, transform, upload, clean-up). So no expand,
  transform or upload of a downloaded file happens before its ledger entry is written,
  and the ledger after the run is the ledger before it with that entry appended.
\<close>
theorem ledger_entry_follows_download:
  "\<exists>evs. trace (main ev w) = trace w @ evs \<and>
     (evs = [] \<and> ledger_file (main ev w) = ledger_file w
      \<or> (\<exists>f rest. evs = Download f # LedgerAppend (stored_name f) # rest
            \<and> list_all later_event rest
            \<and> ledger_file (main ev w) = log_file f (ledger_file w)))"
proof -
  obtain r w' where m: "main_try ev (entered w) = (r, w')"
    by (cases "main_try ev (entered w)") auto
  note fields = main_fields [OF m]
  from main_try_cases [OF m] show ?thesis
  proof
    assume "\<exists>e. r = Inl e \<and> w' = entered w \<and> download_sftp ev (entered w) = (Inl e, entered w)"
    then have "w' = entered w" by blast
    then have "trace (main ev w) = trace w @ []" "ledger_file (main ev w) = ledger_file w"
      using fields by (simp_all add: entered_def)
    then show ?thesis by blast
  next
    assume "\<exists>f w1. download_sftp ev (entered w) = (Inr f, w1)
            \<and> trace w1 = trace (entered w) @ [Download f, LedgerAppend (stored_name f)]
            \<and> ledger_file w1 = log_file f (ledger_file (entered w))
            \<and> temp w1 = temp (entered w) \<and> uploaded w1 = uploaded (entered w)
            \<and> messages w1 = messages (entered w) \<and> notified w1 = notified (entered w)
            \<and> after_download ev f w1 = (r, w') \<and> later_steps w1 w'"
    then obtain f w1 where t: "trace w1 = trace (entered w) @ [Download f, LedgerAppend (stored_name f)]"
      and l: "ledger_file w1 = log_file f (ledger_file (entered w))"
      and ls: "later_steps w1 w'" by blast
    from ls obtain rest where "trace w' = trace w1 @ rest" "list_all later_event rest"
      "ledger_file w' = ledger_file w1" by (auto simp: later_steps_def)
    then have "trace (main ev w) = trace w @ Download f # LedgerAppend (stored_name f) # rest"
      "ledger_file (main ev w) = log_file f (ledger_file w)" "list_all later_event rest"
      using fields t l by (simp_all add: entered_def)
    then show ?thesis by blast
  qed
qed

text \<open>The run in which every call succeeds.\<close>

theorem ledger_entry_follows_download_witness:
  "trace (main (ex_env ex_row_three) ex_world) =
      [Download ''ops_mdm_veh_inven_en_fr_vw_can_20201207.zip'',
       LedgerAppend (stored_name ''ops_mdm_veh_inven_en_fr_vw_can_20201207.zip''),
       Expand ''ops_mdm_veh_inven_en_fr_vw_can_20201207.zip'',
       Rename ''ops_mdm_veh_inven_en_fr_vw_can_20201207.txt''
        ''ops_mdm_veh_inven_en_fr_vw_can_20201207.csv'',
       Transform ''ops_mdm_veh_inven_en_fr_vw_can_20201207.csv'',
       Rename ''ops_mdm_veh_inven_en_fr_vw_can_20201207.csv''
        ''ops_mdm_veh_inven_en_fr_vw_can_20201207.txt'',
       UploadSession, Stor ''ops_mdm_veh_inven_en_fr_vw_can_20201207.txt'',
       RemoveTempFiles,
       Unlink ''ops_mdm_veh_inven_en_fr_vw_can_20201207.txt'', Rmdir]
   \<and> ledger_file (main (ex_env ex_row_three) ex_world)
       = log_file ''ops_mdm_veh_inven_en_fr_vw_can_20201207.zip'' (ledger_file ex_world)"
proof -
  have t: "trace (main (ex_env ex_row_three) ex_world) =
      [Download ''ops_mdm_veh_inven_en_fr_vw_can_20201207.zip'',
       LedgerAppend (stored_name ''ops_mdm_veh_inven_en_fr_vw_can_20201207.zip''),
       Expand ''ops_mdm_veh_inven_en_fr_vw_can_20201207.zip'',
       Rename ''ops_mdm_veh_inven_en_fr_vw_can_20201207.txt''
        ''ops_mdm_veh_inven_en_fr_vw_can_20201207.csv'',
       Transform ''ops_mdm_veh_inven_en_fr_vw_can_20201207.csv'',
       Rename ''ops_mdm_veh_inven_en_fr_vw_can_20201207.csv''
        ''ops_mdm_veh_inven_en_fr_vw_can_20201207.txt'',
       UploadSession, Stor ''ops_mdm_veh_inven_en_fr_vw_can_20201207.txt'',
       RemoveTempFiles,
       Unlink ''ops_mdm_veh_inven_en_fr_vw_can_20201207.txt'', Rmdir]"
    by code_simp
  have e: "trace ex_world = []" by (simp add: ex_world_def)
  from ledger_entry_follows_download [of "ex_env ex_row_three" ex_world]
  obtain evs where evs: "trace (main (ex_env ex_row_three) ex_world) = trace ex_world @ evs"
    and c: "evs = [] \<and> ledger_file (main (ex_env ex_row_three) ex_world) = ledger_file ex_world
      \<or> (\<exists>f rest. evs = Download f # LedgerAppend (stored_name f) # rest
            \<and> list_all later_event rest
            \<and> ledger_file (main (ex_env ex_row_three) ex_world) = log_file f (ledger_file ex_world))"
    by blast
  from evs e t have "evs = Download ''ops_mdm_veh_inven_en_fr_vw_can_20201207.zip'' #
       LedgerAppend (stored_name ''ops_mdm_veh_inven_en_fr_vw_can_20201207.zip'') #
       [Expand ''ops_mdm_veh_inven_en_fr_vw_can_20201207.zip'',
       Rename ''ops_mdm_veh_inven_en_fr_vw_can_20201207.txt''
        ''ops_mdm_veh_inven_en_fr_vw_can_20201207.csv'',
       Transform ''ops_mdm_veh_inven_en_fr_vw_can_20201207.csv'',
       Rename ''ops_mdm_veh_inven_en_fr_vw_can_20201207.csv''
        ''ops_mdm_veh_inven_en_fr_vw_can_20201207.txt'',
       UploadSession, Stor ''ops_mdm_veh_inven_en_fr_vw_can_20201207.txt'',
       RemoveTempFiles,
       Unlink ''ops_mdm_veh_inven_en_fr_vw_can_20201207.txt'', Rmdir]"
    by simp
  with c have "ledger_file (main (ex_env ex_row_three) ex_world)
       = log_file ''ops_mdm_veh_inven_en_fr_vw_can_20201207.zip'' (ledger_file ex_world)"
    by auto
  with t show ?thesis by simp
qed

text \<open>
  Claim C8. When the chosen candidate is already recorded in the ledger,
  \<^verbatim>\<open>download_sftp\<close> raises \<^verbatim>\<open>DuplicateFileError\<close> before the download, and the run
  changes nothing but the messages and the notification: no file is downloaded, no
  ledger entry is appended, nothing is expanded, transformed or uploaded.
\<close>
theorem duplicate_run_does_nothing:
  assumes "sftp_session ev = Connected" and "vw_out ev = Some remote"
    and "select_newest (listdir remote) = Inr f"
    and "check_duplicate f (ledger_file w) = Inr True"
  shows "download_sftp ev w = (Inl (DuplicateFileError ''File has already been logged.''), w)
    \<and> main ev w = w\<lparr>messages := messages w @ [''An error has occurred:'', ''File has already been logged.''],
                    notified := notified w @ [messages w @ [''An error has occurred:'',
                                                            ''File has already been logged.'']]\<rparr>
    \<and> trace (main ev w) = trace w \<and> cwd_files (main ev w) = cwd_files w
    \<and> ledger_file (main ev w) = ledger_file w \<and> temp (main ev w) = temp w
    \<and> uploaded (main ev w) = uploaded w"
proof -
  have d: "download_sftp ev w = (Inl (DuplicateFileError ''File has already been logged.''), w)"
    using assms by (simp add: download_sftp_def)
  have "download_sftp ev (entered w)
        = (Inl (DuplicateFileError ''File has already been logged.''), entered w)"
    using assms by (simp add: download_sftp_def entered_def)
  then have t: "main_try ev (entered w)
        = (Inl (DuplicateFileError ''File has already been logged.''), entered w)"
    by (simp add: main_try_unfold and_then_def)
  have m: "main ev w = w\<lparr>messages := messages w @ [''An error has occurred:'', ''File has already been logged.''],
                    notified := notified w @ [messages w @ [''An error has occurred:'',
                                                            ''File has already been logged.'']]\<rparr>"
    using t by (simp add: main_def entered_def Let_def)
  show ?thesis using d main_fields [OF t] by (simp add: m entered_def)
qed

text \<open>A run against a ledger that already holds the newest archive.\<close>

theorem duplicate_run_does_nothing_witness:
  "sftp_session (ex_env ex_row_three) = Connected
   \<and> vw_out (ex_env ex_row_three) = Some ex_dir
   \<and> select_newest (listdir ex_dir) = Inr ''ops_mdm_veh_inven_en_fr_vw_can_20201207.zip''
   \<and> check_duplicate ''ops_mdm_veh_inven_en_fr_vw_can_20201207.zip'' (ledger_file ex_world_seen) = Inr True
   \<and> download_sftp (ex_env ex_row_three) ex_world_seen
       = (Inl (DuplicateFileError ''File has already been logged.''), ex_world_seen)
   \<and> trace (main (ex_env ex_row_three) ex_world_seen) = trace ex_world_seen
   \<and> cwd_files (main (ex_env ex_row_three) ex_world_seen) = cwd_files ex_world_seen
   \<and> ledger_file (main (ex_env ex_row_three) ex_world_seen) = ledger_file ex_world_seen
   \<and> temp (main (ex_env ex_row_three) ex_world_seen) = temp ex_world_seen
   \<and> uploaded (main (ex_env ex_row_three) ex_world_seen) = uploaded ex_world_seen"
proof -
  have 1: "sftp_session (ex_env ex_row_three) = Connected" by (simp add: ex_env_def)
  have 2: "vw_out (ex_env ex_row_three) = Some ex_dir" by (simp add: ex_env_def)
  have 3: "select_newest (listdir ex_dir) = Inr ''ops_mdm_veh_inven_en_fr_vw_can_20201207.zip''"
    by code_simp
  have 4: "check_duplicate ''ops_mdm_veh_inven_en_fr_vw_can_20201207.zip'' (ledger_file ex_world_seen) = Inr True"
    by code_simp
  from duplicate_run_does_nothing [OF 1 2 3 4] 1 2 3 4 show ?thesis by simp
qed

text \<open>
  Claim C9. When the ledger file does not exist, \<^verbatim>\<open>check_duplicate\<close> raises
  \<^verbatim>\<open>FileNotFoundError\<close> for every name; the run fails in \<^verbatim>\<open>download_sftp\<close> without
  any download or other call, and when the session is open and a candidate exists the
  failure is that error, reported as an unknown error.
\<close>
theorem missing_ledger_fails_run:
  assumes "ledger_file w = None"
  shows "check_duplicate f (ledger_file w) = Inl (FileNotFoundError ''log_file.txt'')
    \<and> (\<exists>e. main_try ev (entered w) = (Inl e, entered w))
    \<and> trace (main ev w) = trace w \<and> cwd_files (main ev w) = cwd_files w
    \<and> ledger_file (main ev w) = None
    \<and> (sftp_session ev = Connected \<and> vw_out ev = Some remote
         \<and> select_newest (listdir remote) = Inr f
       \<longrightarrow> main_try ev (entered w) = (Inl (FileNotFoundError ''log_file.txt''), entered w)
         \<and> messages (main ev w) = messages w @ [''An error has occurred:'',
                                                ''Unknown error: log_file.txt''])"
proof -
  have c: "check_duplicate g (ledger_file (entered w)) = Inl (FileNotFoundError ''log_file.txt'')" for g
    using assms by (simp add: check_duplicate_def entered_def)
  have "\<exists>e. download_sftp ev (entered w) = (Inl e, entered w)"
    by (cases "sftp_session ev"; cases "vw_out ev")
       (auto simp: download_sftp_def c split: sum.splits)
  then obtain e where d: "download_sftp ev (entered w) = (Inl e, entered w)" by blast
  then have t: "main_try ev (entered w) = (Inl e, entered w)"
    by (simp add: main_try_unfold and_then_def)
  have 1: "check_duplicate f (ledger_file w) = Inl (FileNotFoundError ''log_file.txt'')"
    using assms by (simp add: check_duplicate_def)
  have 6: "main_try ev (entered w) = (Inl (FileNotFoundError ''log_file.txt''), entered w)
         \<and> messages (main ev w) = messages w @ [''An error has occurred:'',
                                                ''Unknown error: log_file.txt'']"
    if "sftp_session ev = Connected \<and> vw_out ev = Some remote
         \<and> select_newest (listdir remote) = Inr f"
  proof -
    have "download_sftp ev (entered w) = (Inl (FileNotFoundError ''log_file.txt''), entered w)"
      using that by (simp add: download_sftp_def c)
    then have t': "main_try ev (entered w) = (Inl (FileNotFoundError ''log_file.txt''), entered w)"
      by (simp add: main_try_unfold and_then_def)
    then show ?thesis by (simp add: main_def entered_def Let_def)
  qed
  show ?thesis using 1 t main_fields [OF t] 6 assms by (auto simp: entered_def)
qed

text \<open>A run without a ledger file.\<close>

theorem missing_ledger_fails_run_witness:
  "ledger_file ex_world_fresh = None
   \<and> check_duplicate ''ops_mdm_veh_inven_en_fr_vw_can_20201207.zip'' (ledger_file ex_world_fresh)
       = Inl (FileNotFoundError ''log_file.txt'')
   \<and> trace (main (ex_env ex_row_three) ex_world_fresh) = trace ex_world_fresh
   \<and> cwd_files (main (ex_env ex_row_three) ex_world_fresh) = cwd_files ex_world_fresh
   \<and> ledger_file (main (ex_env ex_row_three) ex_world_fresh) = None
   \<and> messages (main (ex_env ex_row_three) ex_world_fresh)
       = messages ex_world_fresh @ [''An error has occurred:'', ''Unknown error: log_file.txt'']"
proof -
  have 0: "ledger_file ex_world_fresh = None" by (simp add: ex_world_fresh_def)
  have 1: "sftp_session (ex_env ex_row_three) = Connected" by (simp add: ex_env_def)
  have 2: "vw_out (ex_env ex_row_three) = Some ex_dir" by (simp add: ex_env_def)
  have 3: "select_newest (listdir ex_dir) = Inr ''ops_mdm_veh_inven_en_fr_vw_can_20201207.zip''"
    by code_simp
  from missing_ledger_fails_run [OF 0, of "''ops_mdm_veh_inven_en_fr_vw_can_20201207.zip''"
      "ex_env ex_row_three" ex_dir] 0 1 2 3
  show ?thesis by simp
qed

lemma rmdir_success: "rmdir ev w = (Inr u, w') \<Longrightarrow> temp w' = None"
  by (auto simp: rmdir_def Let_def record_event_def split: option.splits if_splits)

lemma after_unzip_success: "after_unzip ev f w = (Inr u, w') \<Longrightarrow> temp w' = None"
  unfolding after_unzip_def
  by (auto dest!: and_then_cases dest: rmdir_success)

lemma after_download_success: "after_download ev f w = (Inr u, w') \<Longrightarrow> temp w' = None"
  unfolding after_download_def
  by (auto dest!: and_then_cases dest: after_unzip_success)

lemma keeps_area_trans: "keeps_area w w1 \<Longrightarrow> keeps_area w1 w2 \<Longrightarrow> keeps_area w w2"
  by (simp add: keeps_area_def)

lemma and_then_keeps:
  assumes "\<And>w r w'. m w = (r, w') \<Longrightarrow> keeps_area w w'"
    and "\<And>x w e w'. f x w = (Inl e, w') \<Longrightarrow> keeps_area w w'"
    and "and_then m f w = (Inl e, w')"
  shows "keeps_area w w'"
  using and_then_cases [OF assms(3)] assms(1,2) keeps_area_trans by blast

lemma convert_file_keeps: "convert_file a b f w = (r, w') \<Longrightarrow> keeps_area w w'"
  by (auto simp: convert_file_def Let_def keeps_area_def record_event_def
           split: option.splits sum.splits)

lemma change_pictures_keeps: "change_pictures f w = (r, w') \<Longrightarrow> keeps_area w w'"
  by (auto simp: change_pictures_def Let_def keeps_area_def record_event_def
           split: option.splits sum.splits fsnode.splits payload.splits)

lemma stor_all_temp: "stor_all ev ns w = (r, w') \<Longrightarrow> temp w' = temp w"
  by (induction ns arbitrary: w)
     (auto simp: Let_def record_event_def split: option.splits)

lemma ftp_upload_keeps: "ftp_upload ev p w = (r, w') \<Longrightarrow> keeps_area w w'"
  by (auto simp: ftp_upload_def Let_def keeps_area_def record_event_def
           split: option.splits dest!: stor_all_temp)

lemma remove_entries_keeps: "remove_entries ev ns w = (r, w') \<Longrightarrow> keeps_area w w'"
proof (induction ns arbitrary: w)
  case Nil
  then show ?case by (simp add: keeps_area_def)
next
  case (Cons n ns)
  show ?case
  proof (cases "delete_error ev n")
    case None
    let ?w1 = "(record_event (Unlink n) w)\<lparr>temp := map_option (filter (\<lambda>e. fst e \<noteq> n))
                  (temp (record_event (Unlink n) w))\<rparr>"
    have "remove_entries ev ns ?w1 = (r, w')" using Cons.prems None by (simp add: Let_def)
    then have "keeps_area ?w1 w'" by (rule Cons.IH)
    moreover have "keeps_area w ?w1" by (simp add: keeps_area_def record_event_def)
    ultimately show ?thesis by (rule keeps_area_trans [rotated])
  next
    case (Some e)
    then show ?thesis using Cons.prems
      by (auto simp: Let_def keeps_area_def record_event_def)
  qed
qed

lemma remove_temp_files_keeps: "remove_temp_files ev w = (r, w') \<Longrightarrow> keeps_area w w'"
proof (cases "temp w")
  case None
  then show ?thesis by (simp add: keeps_area_def)
next
  case (Some es)
  assume "remove_temp_files ev w = (r, w')"
  then have "remove_entries ev (map fst es) (record_event RemoveTempFiles w) = (r, w')"
    using Some by (simp add: remove_temp_files_def Let_def record_event_def)
  from remove_entries_keeps [OF this] show ?thesis
    by (simp add: keeps_area_def record_event_def)
qed

lemma rmdir_failure_keeps: "rmdir ev w = (Inl e, w') \<Longrightarrow> keeps_area w w'"
  by (auto simp: rmdir_def Let_def keeps_area_def record_event_def
           split: option.splits if_splits)

lemma after_unzip_failure: "after_unzip ev f w = (Inl e, w') \<Longrightarrow> keeps_area w w'"
  unfolding after_unzip_def
  by (erule and_then_keeps [rotated 2]
      | erule convert_file_keeps change_pictures_keeps ftp_upload_keeps
          remove_temp_files_keeps rmdir_failure_keeps)+

lemma main_try_notified:
  "main_try ev w = (r, w') \<Longrightarrow> notified w' = notified w"
  by (auto dest!: main_try_cases simp: later_steps_def)

text \<open>
  Claim C1, as the code has it. The working area is absent after every run that
  succeeds (a run that sends no notification). The teardown is the last step of the
  \<^verbatim>\<open>try\<close> block and no handler repeats it: a run that fails after the archive was
  expanded into an existing working area leaves that area in place, and a run that
  fails in \<^verbatim>\<open>download_sftp\<close> leaves the working area as it found it.
\<close>

theorem teardown_only_on_success:
  "(notified (main ev w) = notified w \<longrightarrow> temp (main ev w) = None)
   \<and> (download_sftp ev (entered w) = (Inr f, w1) \<and> unzip_file ev f w1 = (Inr (), w2)
        \<and> temp w2 \<noteq> None \<and> notified (main ev w) \<noteq> notified w
      \<longrightarrow> temp (main ev w) \<noteq> None)
   \<and> (download_sftp ev (entered w) = (Inl e, w1) \<longrightarrow> temp (main ev w) = temp w)"
proof (intro conjI impI)
  obtain r w' where m: "main_try ev (entered w) = (r, w')"
    by (cases "main_try ev (entered w)") auto
  have n: "notified w' = notified w"
    using main_try_notified [OF m] by (simp add: entered_def)
  {
    assume same: "notified (main ev w) = notified w"
    have "\<exists>u. r = Inr u"
    proof (cases r)
      case (Inl e')
      then show ?thesis using main_notified [OF m] same n by simp
    next
      case (Inr u)
      then show ?thesis by simp
    qed
    then obtain u where r: "r = Inr u" by blast
    from main_try_cases [OF m] r obtain g v where "after_download ev g v = (Inr u, w')"
      by auto
    then have "temp w' = None" by (rule after_download_success)
    then show "temp (main ev w) = None" using main_fields [OF m] by simp
  }
  {
    assume a: "download_sftp ev (entered w) = (Inr f, w1) \<and> unzip_file ev f w1 = (Inr (), w2)
        \<and> temp w2 \<noteq> None \<and> notified (main ev w) \<noteq> notified w"
    then have au: "after_unzip ev f w2 = (r, w')"
      using m by (simp add: main_try_unfold and_then_def after_download_def)
    have "\<exists>e'. r = Inl e'"
    proof (cases r)
      case (Inl e')
      then show ?thesis by simp
    next
      case (Inr u)
      then show ?thesis using main_notified [OF m] a n by simp
    qed
    then obtain e' where "r = Inl e'" by blast
    then have "keeps_area w2 w'" using au after_unzip_failure by simp
    then have "temp w' \<noteq> None" using a by (simp add: keeps_area_def)
    then show "temp (main ev w) \<noteq> None" using main_fields [OF m] by simp
  }
  {
    assume d: "download_sftp ev (entered w) = (Inl e, w1)"
    from download_sftp_cases [OF d] have "w1 = entered w" by auto
    moreover have "main_try ev (entered w) = (Inl e, w1)"
      using d by (simp add: main_try_unfold and_then_def)
    ultimately show "temp (main ev w) = temp w"
      using main_fields [of ev w "Inl e" w1] by (simp add: entered_def)
  }
qed

text \<open>
  A run that succeeds, a run that fails in the transform, and a run that fails in the
  download.
\<close>

theorem teardown_only_on_success_witness:
  "notified (main (ex_env ex_row_three) ex_world) = notified ex_world
   \<and> temp (main (ex_env ex_row_three) ex_world) = None
   \<and> notified (main (ex_env ex_row_text) ex_world) \<noteq> notified ex_world
   \<and> temp (main (ex_env ex_row_text) ex_world) \<noteq> None
   \<and> temp (main (ex_env ex_row_three) ex_world_fresh) = temp ex_world_fresh"
proof -
  let ?f = "''ops_mdm_veh_inven_en_fr_vw_can_20201207.zip''"
  let ?w1 = "snd (download_sftp (ex_env ex_row_text) (entered ex_world))"
  let ?w2 = "snd (unzip_file (ex_env ex_row_text) ?f ?w1)"
  have s: "notified (main (ex_env ex_row_three) ex_world) = notified ex_world"
    by code_simp
  have 1: "temp (main (ex_env ex_row_three) ex_world) = None"
    using teardown_only_on_success [of "ex_env ex_row_three" ex_world] s by blast
  have "fst (download_sftp (ex_env ex_row_text) (entered ex_world)) = Inr ?f"
    by code_simp
  then have d: "download_sftp (ex_env ex_row_text) (entered ex_world) = (Inr ?f, ?w1)"
    by (metis prod.collapse)
  have "fst (unzip_file (ex_env ex_row_text) ?f ?w1) = Inr ()"
    by code_simp
  then have u: "unzip_file (ex_env ex_row_text) ?f ?w1 = (Inr (), ?w2)"
    by (metis prod.collapse)
  have "temp ?w2 = Some (ex_members ex_row_text)" by code_simp
  then have t: "temp ?w2 \<noteq> None" by simp
  have "notified (main (ex_env ex_row_text) ex_world)
        = [[''An error has occurred:'', ''Unknown error: must be real number, not str'']]"
    by code_simp
  moreover have "notified ex_world = []" by (simp add: ex_world_def)
  ultimately have c: "notified (main (ex_env ex_row_text) ex_world) \<noteq> notified ex_world"
    by simp
  have 2: "temp (main (ex_env ex_row_text) ex_world) \<noteq> None"
    using teardown_only_on_success [of "ex_env ex_row_text" ex_world ?f ?w1 ?w2] d u t c
    by blast
  let ?v1 = "snd (download_sftp (ex_env ex_row_three) (entered ex_world_fresh))"
  have "fst (download_sftp (ex_env ex_row_three) (entered ex_world_fresh))
        = Inl (FileNotFoundError ''log_file.txt'')"
    by code_simp
  then have "download_sftp (ex_env ex_row_three) (entered ex_world_fresh)
        = (Inl (FileNotFoundError ''log_file.txt''), ?v1)"
    by (metis prod.collapse)
  then have 3: "temp (main (ex_env ex_row_three) ex_world_fresh) = temp ex_world_fresh"
    using teardown_only_on_success [of "ex_env ex_row_three" ex_world_fresh _ ?v1 _
        "FileNotFoundError ''log_file.txt''"]
    by blast
  show ?thesis using s 1 c 2 3 by simp
qed

text \<open>
  Claim C1 as it is stated fails on a run whose transform raises (the photo count of
  the record is text): the run ends with a notification and the working area is still
  there, with the renamed table in it.
\<close>

theorem teardown_missing_counterexample:
  "temp (main (ex_env ex_row_text) ex_world)
     = Some [(''ops_mdm_veh_inven_en_fr_vw_can_20201207.csv'', File (Table [ex_row_text]))]
   \<and> notified (main (ex_env ex_row_text) ex_world)
     = [[''An error has occurred:'', ''Unknown error: must be real number, not str'']]
   \<and> temp (main (ex_env ex_row_text) ex_world) \<noteq> None"
proof -
  have 1: "temp (main (ex_env ex_row_text) ex_world)
     = Some [(''ops_mdm_veh_inven_en_fr_vw_can_20201207.csv'', File (Table [ex_row_text]))]"
    by code_simp
  have 2: "notified (main (ex_env ex_row_text) ex_world)
     = [[''An error has occurred:'', ''Unknown error: must be real number, not str'']]"
    by code_simp
  show ?thesis unfolding 1 2 by simp
qed

end
